theory Spec2Isabelle
  imports Main
begin

section \<open>Data model\<close>

text \<open>
  The exporter of \<^verbatim>\<open>exporter.go\<close> drives a workbook backend (the excelize library),
  a row source and an optional per-sheet hook. All three are collaborators outside the
  package. The orchestrator is embedded as state-passing functions on the \<^verbatim>\<open>Exporter\<close>
  struct; every call that leaves the package is appended, together with the error it
  returned, to a history kept in the \<^verbatim>\<open>File\<close> field, and each collaborator answers
  as a function of that history. A deterministic collaborator with hidden state (a closure
  over a cursor, the in-memory workbook) is exactly such a function.
\<close>

datatype error =
    Error string
  | Errorf string error
  | NilPointerDereference

text \<open>
  Modelled from the spec: the declarations of \<^verbatim>\<open>Cell\<close>, \<^verbatim>\<open>MergeCell\<close> and \<^verbatim>\<open>Row\<close> are not
  in \<^verbatim>\<open>exporter.go\<close>; their fields are the ones the code reads (\<^verbatim>\<open>Value\<close>, \<^verbatim>\<open>StyleID\<close>,
  \<^verbatim>\<open>Formula\<close>; \<^verbatim>\<open>TopLeftCell\<close>, \<^verbatim>\<open>BottomRightCell\<close>; \<^verbatim>\<open>Cells\<close>, \<^verbatim>\<open>MergeCells\<close>, \<^verbatim>\<open>RowOpts\<close>).
  A Go slice is either nil or present: \<^verbatim>\<open>Cells\<close> is an optional list, \<open>None\<close> for nil.
  The cell value (\<^verbatim>\<open>interface{}\<close>) and the row options are type parameters.
\<close>

record 'v Cell =
  Value :: 'v
  StyleID :: int
  Formula :: string

record MergeCell =
  TopLeftCell :: string
  BottomRightCell :: string

record ('v, 'o) Row =
  Cells :: "'v Cell list option"
  MergeCells :: "MergeCell list"
  RowOpts :: "'o list"

text \<open>The zero value \<^verbatim>\<open>Row{}\<close>: all three slices nil.\<close>

definition Row_zero :: "('v, 'o) Row" where
  "Row_zero = \<lparr>Cells = None, MergeCells = [], RowOpts = []\<rparr>"

text \<open>
  The calls that leave the package. A stream writer is identified by the position of the
  \<^verbatim>\<open>NewStreamWriter\<close> call that returned it.
\<close>

datatype ('v, 'o) call =
    File_NewSheet string
  | File_DeleteSheet string
  | File_SetCellValue string string 'v
  | File_SetCellStyle string string string int
  | File_SetCellFormula string string string
  | File_MergeCell string string string
  | File_NewStreamWriter string
  | File_SaveAs string
  | File_Close
  | Stream_SetRow nat string "'v Cell list" "'o list"
  | Stream_MergeCell nat string string
  | Stream_Flush nat
  | RowFunc_call int
  | InitFunc_call string

type_synonym ('v, 'o) history = "(('v, 'o) call \<times> error option) list"

text \<open>
  The backend: whether a call fails after a given history, the \<^verbatim>\<open>SheetCount\<close> field of
  the workbook after a given history, and \<^verbatim>\<open>excelize.CoordinatesToCellName\<close>, whose
  error the code drops.
\<close>

record ('v, 'o) backend =
  respond :: "('v, 'o) history \<Rightarrow> ('v, 'o) call \<Rightarrow> error option"
  SheetCount :: "('v, 'o) history \<Rightarrow> int"
  CoordinatesToCellName :: "int \<Rightarrow> int \<Rightarrow> string"

record ('v, 'o) Exporter =
  File :: "('v, 'o) history"
  FileName :: string
  CurrentSheet :: string
  UseStreamWriter :: bool
  StreamWriter :: "nat option"

text \<open>
  \<^verbatim>\<open>RowFunc\<close> returns \<^verbatim>\<open>(Row, error)\<close>; the caller looks at the row only when the error
  is nil, so the result is a sum. \<^verbatim>\<open>InitFunc\<close> may be nil. The hook receives the
  exporter, reads it and answers with its error; what it does to the workbook shows in the
  later answers of the backend. It is taken not to reassign the exporter's fields.
\<close>

record ('v, 'o) SheetData =
  Name :: string
  RowFunc :: "('v, 'o) history \<Rightarrow> int \<Rightarrow> error + ('v, 'o) Row"
  InitFunc :: "(('v, 'o) Exporter \<Rightarrow> error option) option"

datatype status = Returned "error option" | OutOfFuel

section \<open>Constants and small helpers\<close>

definition SheetMaxRows :: int where
  "SheetMaxRows = 2 ^ 20"

text \<open>Go's \<^verbatim>\<open>int\<close> is 64 bits wide; \<^verbatim>\<open>x++\<close> wraps.\<close>

definition int64 :: "int \<Rightarrow> int" where
  "int64 x = (x + 2 ^ 63) mod 2 ^ 64 - 2 ^ 63"

definition digit_char :: "nat \<Rightarrow> char" where
  "digit_char d = ''0123456789'' ! d"

fun decimal :: "nat \<Rightarrow> string" where
  "decimal n = (if n < 10 then [digit_char n] else decimal (n div 10) @ [digit_char (n mod 10)])"

declare decimal.simps [simp del]

text \<open>\<^verbatim>\<open>fmt.Sprintf("%s_%d", name, n)\<close>.\<close>

definition Sprintf_s_d :: "string \<Rightarrow> int \<Rightarrow> string" where
  "Sprintf_s_d name n =
     name @ ''_'' @ (if n < 0 then ''-'' @ decimal (nat (- n)) else decimal (nat n))"

text \<open>One call out of the package: ask the backend, record the call and its answer.\<close>

definition invoke ::
  "('v, 'o) backend \<Rightarrow> ('v, 'o) call \<Rightarrow> ('v, 'o) Exporter \<Rightarrow> error option \<times> ('v, 'o) Exporter" where
  "invoke b c e =
     (let r = respond b (File e) c in (r, e\<lparr>File := File e @ [(c, r)]\<rparr>))"

text \<open>\<^verbatim>\<open>if err := f(); err != nil { return err }\<close> followed by the rest.\<close>

definition and_then ::
  "error option \<times> 's \<Rightarrow> ('s \<Rightarrow> error option \<times> 's) \<Rightarrow> error option \<times> 's" where
  "and_then r k = (case r of (None, s) \<Rightarrow> k s | (Some err, s) \<Rightarrow> (Some err, s))"

text \<open>\<^verbatim>\<open>fmt.Errorf(msg + ": %w", err)\<close> on the error path.\<close>

definition wrap_err :: "string \<Rightarrow> error option \<times> 's \<Rightarrow> error option \<times> 's" where
  "wrap_err msg r = (case r of (None, s) \<Rightarrow> (None, s) | (Some err, s) \<Rightarrow> (Some (Errorf msg err), s))"

text \<open>\<^verbatim>\<open>sheet.InitFunc(e)\<close>, for a hook that is not nil.\<close>

definition call_InitFunc ::
  "(('v, 'o) Exporter \<Rightarrow> error option) \<Rightarrow> ('v, 'o) Exporter \<Rightarrow> error option \<times> ('v, 'o) Exporter" where
  "call_InitFunc f e =
     (let r = f e in (r, e\<lparr>File := File e @ [(InitFunc_call (CurrentSheet e), r)]\<rparr>))"

text \<open>\<^verbatim>\<open>sheet.RowFunc(rowIndex)\<close>.\<close>

definition call_RowFunc ::
  "('v, 'o) SheetData \<Rightarrow> int \<Rightarrow> ('v, 'o) Exporter \<Rightarrow> (error + ('v, 'o) Row) \<times> ('v, 'o) Exporter" where
  "call_RowFunc sheet rowIndex e =
     (let r = RowFunc sheet (File e) rowIndex
      in (r, e\<lparr>File := File e @ [(RowFunc_call rowIndex, case r of Inl err \<Rightarrow> Some err | Inr _ \<Rightarrow> None)]\<rparr>))"

section \<open>The exporter\<close>

definition New :: "string \<Rightarrow> bool \<Rightarrow> ('v, 'o) Exporter" where
  "New fileName useStreamWriter =
     \<lparr>File = [], FileName = fileName, CurrentSheet = [], UseStreamWriter = useStreamWriter,
      StreamWriter = None\<rparr>"

subsection \<open>Streaming strategy\<close>

text \<open>
  \<^verbatim>\<open>e.StreamWriter, err = e.File.NewStreamWriter(sheetName)\<close>: the field is assigned
  whatever the call returned, nil on failure.
\<close>

definition NewStreamWriter ::
  "('v, 'o) backend \<Rightarrow> string \<Rightarrow> ('v, 'o) Exporter \<Rightarrow> error option \<times> ('v, 'o) Exporter" where
  "NewStreamWriter b sheetName e =
     (case invoke b (File_NewStreamWriter sheetName) e of
        (None, e1) \<Rightarrow> (None, e1\<lparr>StreamWriter := Some (length (File e))\<rparr>)
      | (Some err, e1) \<Rightarrow> (Some err, e1\<lparr>StreamWriter := None\<rparr>))"

definition stream_initFunc ::
  "('v, 'o) backend \<Rightarrow> ('v, 'o) SheetData \<Rightarrow> string \<Rightarrow> ('v, 'o) Exporter
     \<Rightarrow> error option \<times> ('v, 'o) Exporter" where
  "stream_initFunc b sheet sheetName e =
     and_then (case StreamWriter e of None \<Rightarrow> (None, e) | Some sw \<Rightarrow> invoke b (Stream_Flush sw) e)
       (\<lambda>e1. and_then (NewStreamWriter b sheetName e1)
         (\<lambda>e2. case InitFunc sheet of None \<Rightarrow> (None, e2) | Some f \<Rightarrow> call_InitFunc f e2))"

fun stream_merges ::
  "('v, 'o) backend \<Rightarrow> nat \<Rightarrow> MergeCell list \<Rightarrow> ('v, 'o) Exporter \<Rightarrow> error option \<times> ('v, 'o) Exporter" where
  "stream_merges b sw [] e = (None, e)"
| "stream_merges b sw (mergeCell # rest) e =
     and_then (invoke b (Stream_MergeCell sw (TopLeftCell mergeCell) (BottomRightCell mergeCell)) e)
       (stream_merges b sw rest)"

definition stream_writeRowFunc ::
  "('v, 'o) backend \<Rightarrow> string \<Rightarrow> int \<Rightarrow> ('v, 'o) Row \<Rightarrow> ('v, 'o) Exporter
     \<Rightarrow> error option \<times> ('v, 'o) Exporter" where
  "stream_writeRowFunc b sheetName rowID row e =
     (case StreamWriter e of
        None \<Rightarrow> (Some NilPointerDereference, e)
      | Some sw \<Rightarrow>
          (let rowCells = (case Cells row of None \<Rightarrow> [] | Some cs \<Rightarrow> cs);
               cell = CoordinatesToCellName b 1 rowID
           in and_then (invoke b (Stream_SetRow sw cell rowCells (RowOpts row)) e)
                (stream_merges b sw (MergeCells row))))"

subsection \<open>Buffered strategy\<close>

definition mem_initFunc ::
  "('v, 'o) SheetData \<Rightarrow> string \<Rightarrow> ('v, 'o) Exporter \<Rightarrow> error option \<times> ('v, 'o) Exporter" where
  "mem_initFunc sheet sheetName e =
     (case InitFunc sheet of None \<Rightarrow> (None, e) | Some f \<Rightarrow> call_InitFunc f e)"

definition mem_cell ::
  "('v, 'o) backend \<Rightarrow> string \<Rightarrow> int \<Rightarrow> int \<Rightarrow> 'v Cell \<Rightarrow> ('v, 'o) Exporter
     \<Rightarrow> error option \<times> ('v, 'o) Exporter" where
  "mem_cell b sheetName rowID j cell e =
     (let cellName = CoordinatesToCellName b (j + 1) rowID
      in and_then (invoke b (File_SetCellValue sheetName cellName (Value cell)) e)
           (\<lambda>e1. and_then
              (if StyleID cell > 0
               then invoke b (File_SetCellStyle sheetName cellName cellName (StyleID cell)) e1
               else (None, e1))
              (\<lambda>e2. if Formula cell \<noteq> []
                    then invoke b (File_SetCellFormula sheetName cellName (Formula cell)) e2
                    else (None, e2))))"

text \<open>\<^verbatim>\<open>for j, cell := range row.Cells\<close>, from index \<open>j\<close> on.\<close>

fun mem_cells ::
  "('v, 'o) backend \<Rightarrow> string \<Rightarrow> int \<Rightarrow> int \<Rightarrow> 'v Cell list \<Rightarrow> ('v, 'o) Exporter
     \<Rightarrow> error option \<times> ('v, 'o) Exporter" where
  "mem_cells b sheetName rowID j [] e = (None, e)"
| "mem_cells b sheetName rowID j (cell # rest) e =
     and_then (mem_cell b sheetName rowID j cell e) (mem_cells b sheetName rowID (j + 1) rest)"

fun mem_merges ::
  "('v, 'o) backend \<Rightarrow> string \<Rightarrow> MergeCell list \<Rightarrow> ('v, 'o) Exporter \<Rightarrow> error option \<times> ('v, 'o) Exporter" where
  "mem_merges b sheetName [] e = (None, e)"
| "mem_merges b sheetName (mergeCell # rest) e =
     and_then (invoke b (File_MergeCell sheetName (TopLeftCell mergeCell) (BottomRightCell mergeCell)) e)
       (mem_merges b sheetName rest)"

definition mem_writeRowFunc ::
  "('v, 'o) backend \<Rightarrow> string \<Rightarrow> int \<Rightarrow> ('v, 'o) Row \<Rightarrow> ('v, 'o) Exporter
     \<Rightarrow> error option \<times> ('v, 'o) Exporter" where
  "mem_writeRowFunc b sheetName rowID row e =
     and_then (mem_cells b sheetName rowID 0 (case Cells row of None \<Rightarrow> [] | Some cs \<Rightarrow> cs) e)
       (mem_merges b sheetName (MergeCells row))"

subsection \<open>The pull loop\<close>

text \<open>The body of \<^verbatim>\<open>if rowID > SheetMaxRows\<close>, after the two counters are updated.\<close>

definition new_split_sheet ::
  "('v, 'o) backend \<Rightarrow> ('v, 'o) SheetData
     \<Rightarrow> (string \<Rightarrow> ('v, 'o) Exporter \<Rightarrow> error option \<times> ('v, 'o) Exporter)
     \<Rightarrow> int \<Rightarrow> ('v, 'o) Exporter \<Rightarrow> error option \<times> ('v, 'o) Exporter" where
  "new_split_sheet b sheet initFunc sheetSuffix e =
     (let currentSheetName = Sprintf_s_d (Name sheet) sheetSuffix
      in and_then (wrap_err ''failed to create a new sheet'' (invoke b (File_NewSheet currentSheetName) e))
           (\<lambda>e1. initFunc currentSheetName (e1\<lparr>CurrentSheet := currentSheetName\<rparr>)))"

text \<open>
  The \<^verbatim>\<open>for\<close> loop of \<^verbatim>\<open>exportHelper\<close>. It runs for as long as the row source yields
  rows, so it takes fuel: one unit for each pull.
\<close>

fun exportHelper_loop ::
  "('v, 'o) backend \<Rightarrow> ('v, 'o) SheetData
     \<Rightarrow> (string \<Rightarrow> ('v, 'o) Exporter \<Rightarrow> error option \<times> ('v, 'o) Exporter)
     \<Rightarrow> (string \<Rightarrow> int \<Rightarrow> ('v, 'o) Row \<Rightarrow> ('v, 'o) Exporter \<Rightarrow> error option \<times> ('v, 'o) Exporter)
     \<Rightarrow> nat \<Rightarrow> int \<Rightarrow> int \<Rightarrow> int \<Rightarrow> ('v, 'o) Exporter \<Rightarrow> status \<times> ('v, 'o) Exporter" where
  "exportHelper_loop b sheet initFunc writeRowFunc 0 rowID sheetSuffix rowIndex e = (OutOfFuel, e)"
| "exportHelper_loop b sheet initFunc writeRowFunc (Suc fuel) rowID sheetSuffix rowIndex e =
     (case call_RowFunc sheet rowIndex e of
        (Inl err, e1) \<Rightarrow> (Returned (Some err), e1)
      | (Inr row, e1) \<Rightarrow>
          (if Cells row = None then (Returned None, e1)
           else
             (let over = (rowID > SheetMaxRows);
                  sheetSuffix' = (if over then int64 (sheetSuffix + 1) else sheetSuffix);
                  rowID' = (if over then 1 else rowID)
              in case and_then
                        (if over then new_split_sheet b sheet initFunc sheetSuffix' e1 else (None, e1))
                        (\<lambda>e2. writeRowFunc (CurrentSheet e2) rowID' row e2) of
                   (Some err, e3) \<Rightarrow> (Returned (Some err), e3)
                 | (None, e3) \<Rightarrow>
                     exportHelper_loop b sheet initFunc writeRowFunc fuel
                       (int64 (rowID' + 1)) sheetSuffix' (int64 (rowIndex + 1)) e3)))"

definition exportHelper ::
  "('v, 'o) backend \<Rightarrow> ('v, 'o) SheetData
     \<Rightarrow> (string \<Rightarrow> ('v, 'o) Exporter \<Rightarrow> error option \<times> ('v, 'o) Exporter)
     \<Rightarrow> (string \<Rightarrow> int \<Rightarrow> ('v, 'o) Row \<Rightarrow> ('v, 'o) Exporter \<Rightarrow> error option \<times> ('v, 'o) Exporter)
     \<Rightarrow> nat \<Rightarrow> ('v, 'o) Exporter \<Rightarrow> status \<times> ('v, 'o) Exporter" where
  "exportHelper b sheet initFunc writeRowFunc fuel e =
     (let e0 = e\<lparr>CurrentSheet := Name sheet\<rparr>
      in case initFunc (CurrentSheet e0) e0 of
           (Some err, e1) \<Rightarrow> (Returned (Some err), e1)
         | (None, e1) \<Rightarrow> exportHelper_loop b sheet initFunc writeRowFunc fuel 1 0 0 e1)"

definition exportUsingMemory ::
  "('v, 'o) backend \<Rightarrow> nat \<Rightarrow> ('v, 'o) SheetData \<Rightarrow> ('v, 'o) Exporter \<Rightarrow> status \<times> ('v, 'o) Exporter" where
  "exportUsingMemory b fuel sheet e =
     exportHelper b sheet (mem_initFunc sheet) (mem_writeRowFunc b) fuel e"

definition exportUsingStreamWriter ::
  "('v, 'o) backend \<Rightarrow> nat \<Rightarrow> ('v, 'o) SheetData \<Rightarrow> ('v, 'o) Exporter \<Rightarrow> status \<times> ('v, 'o) Exporter" where
  "exportUsingStreamWriter b fuel sheet e =
     (case exportHelper b sheet (stream_initFunc b sheet) (stream_writeRowFunc b) fuel e of
        (Returned None, e1) \<Rightarrow>
          (case StreamWriter e1 of
             None \<Rightarrow> (Returned (Some NilPointerDereference), e1)
           | Some sw \<Rightarrow> (case invoke b (Stream_Flush sw) e1 of (r, e2) \<Rightarrow> (Returned r, e2)))
      | (st, e1) \<Rightarrow> (st, e1))"

subsection \<open>Export\<close>

text \<open>The \<^verbatim>\<open>if i == 0 && e.File.SheetCount > 1\<close> block.\<close>

definition delete_default_sheet ::
  "('v, 'o) backend \<Rightarrow> int \<Rightarrow> ('v, 'o) Exporter \<Rightarrow> error option \<times> ('v, 'o) Exporter" where
  "delete_default_sheet b i e =
     (if i = 0 \<and> SheetCount b (File e) > 1
      then wrap_err ''failed to delete default sheet'' (invoke b (File_DeleteSheet ''Sheet1'') e)
      else (None, e))"

text \<open>\<^verbatim>\<open>for i, sheet := range sheets\<close>, from index \<open>i\<close> on.\<close>

fun Export_loop ::
  "('v, 'o) backend \<Rightarrow> nat \<Rightarrow> int \<Rightarrow> ('v, 'o) SheetData list \<Rightarrow> ('v, 'o) Exporter
     \<Rightarrow> status \<times> ('v, 'o) Exporter" where
  "Export_loop b fuel i [] e = (Returned None, e)"
| "Export_loop b fuel i (sheet # rest) e =
     (case and_then (wrap_err ''failed to create a new sheet'' (invoke b (File_NewSheet (Name sheet)) e))
             (delete_default_sheet b i) of
        (Some err, e1) \<Rightarrow> (Returned (Some err), e1)
      | (None, e1) \<Rightarrow>
          (case (if UseStreamWriter e1 then exportUsingStreamWriter b fuel sheet e1
                 else exportUsingMemory b fuel sheet e1) of
             (Returned None, e2) \<Rightarrow> Export_loop b fuel (i + 1) rest e2
           | (st, e2) \<Rightarrow> (st, e2)))"

text \<open>
  \<^verbatim>\<open>Export\<close> with its deferred \<^verbatim>\<open>e.File.Close()\<close>, whose error is dropped. \<open>fuel\<close> bounds
  the pulls of each sheet; a run that exhausts it has not returned and has not closed.
\<close>

definition Export ::
  "('v, 'o) backend \<Rightarrow> nat \<Rightarrow> ('v, 'o) SheetData list \<Rightarrow> ('v, 'o) Exporter \<Rightarrow> status \<times> ('v, 'o) Exporter" where
  "Export b fuel sheets e =
     (case Export_loop b fuel 0 sheets e of
        (OutOfFuel, e1) \<Rightarrow> (OutOfFuel, e1)
      | (Returned (Some err), e1) \<Rightarrow> (Returned (Some err), snd (invoke b File_Close e1))
      | (Returned None, e1) \<Rightarrow>
          (case invoke b (File_SaveAs (FileName e1)) e1 of
             (r, e2) \<Rightarrow> (Returned r, snd (invoke b File_Close e2))))"

section \<open>Reference behaviour\<close>

text \<open>
  The definitions of this section are not translated from the code. They say, in the
  words of the specification, which calls a run is expected to make; the theorems below
  compare the code with them.
\<close>

text \<open>Performing a list of backend calls in order, stopping at the first error.\<close>

fun perform ::
  "('v, 'o) backend \<Rightarrow> ('v, 'o) call list \<Rightarrow> ('v, 'o) Exporter \<Rightarrow> error option \<times> ('v, 'o) Exporter" where
  "perform b [] e = (None, e)"
| "perform b (c # cs) e = and_then (invoke b c e) (perform b cs)"

text \<open>
  Buffered strategy, one cell at 0-based position \<open>j\<close>: the value at coordinate
  \<open>(j + 1, rowNumber)\<close>, a style only when \<open>StyleID > 0\<close>, a formula only when the formula
  string is not empty.
\<close>

definition buffered_cell_calls ::
  "('v, 'o) backend \<Rightarrow> string \<Rightarrow> int \<Rightarrow> nat \<Rightarrow> 'v Cell \<Rightarrow> ('v, 'o) call list" where
  "buffered_cell_calls b sheetName rowNumber j cell =
     (let coord = CoordinatesToCellName b (int j + 1) rowNumber
      in [File_SetCellValue sheetName coord (Value cell)]
         @ (if StyleID cell > 0 then [File_SetCellStyle sheetName coord coord (StyleID cell)] else [])
         @ (if Formula cell \<noteq> [] then [File_SetCellFormula sheetName coord (Formula cell)] else []))"

text \<open>Buffered strategy, one row: the cells from left to right, then the merges.\<close>

definition buffered_row_calls ::
  "('v, 'o) backend \<Rightarrow> string \<Rightarrow> int \<Rightarrow> 'v Cell list \<Rightarrow> MergeCell list \<Rightarrow> ('v, 'o) call list" where
  "buffered_row_calls b sheetName rowNumber cells merges =
     concat (map (\<lambda>(j, cell). buffered_cell_calls b sheetName rowNumber j cell) (enumerate 0 cells))
     @ map (\<lambda>m. File_MergeCell sheetName (TopLeftCell m) (BottomRightCell m)) merges"

text \<open>The history entries of calls that all succeeded.\<close>

definition ok :: "('v, 'o) call list \<Rightarrow> ('v, 'o) history" where
  "ok cs = map (\<lambda>c. (c, None)) cs"

text \<open>A backend on which no call fails, and a hook that never fails.\<close>

definition never_fails :: "('v, 'o) backend \<Rightarrow> bool" where
  "never_fails b = (\<forall>h c. respond b h c = None)"

definition hook_never_fails :: "('v, 'o) SheetData \<Rightarrow> bool" where
  "hook_never_fails sheet = (\<forall>f e. InitFunc sheet = Some f \<longrightarrow> f e = None)"

text \<open>The entry a successful hook leaves, and the one a successful flush of the old stream leaves.\<close>

definition hook_entry :: "('v, 'o) SheetData \<Rightarrow> string \<Rightarrow> ('v, 'o) history" where
  "hook_entry sheet name = (case InitFunc sheet of None \<Rightarrow> [] | Some f \<Rightarrow> [(InitFunc_call name, None)])"

definition flush_entry :: "nat option \<Rightarrow> ('v, 'o) history" where
  "flush_entry w = (case w of None \<Rightarrow> [] | Some sw \<Rightarrow> [(Stream_Flush sw, None)])"

text \<open>
  The calls one row takes: in the buffered strategy, and in the streaming strategy, where
  the cells go in one batched call starting at column 1 and the merges follow.
\<close>

definition cells_of :: "('v, 'o) Row \<Rightarrow> 'v Cell list" where
  "cells_of row = (case Cells row of None \<Rightarrow> [] | Some cs \<Rightarrow> cs)"

definition buffered_calls ::
  "('v, 'o) backend \<Rightarrow> string \<Rightarrow> int \<Rightarrow> ('v, 'o) Row \<Rightarrow> ('v, 'o) call list" where
  "buffered_calls b sheetName rowNumber row =
     buffered_row_calls b sheetName rowNumber (cells_of row) (MergeCells row)"

definition stream_row_calls ::
  "('v, 'o) backend \<Rightarrow> nat \<Rightarrow> int \<Rightarrow> ('v, 'o) Row \<Rightarrow> ('v, 'o) call list" where
  "stream_row_calls b sw rowNumber row =
     Stream_SetRow sw (CoordinatesToCellName b 1 rowNumber) (cells_of row) (RowOpts row)
     # map (\<lambda>m. Stream_MergeCell sw (TopLeftCell m) (BottomRightCell m)) (MergeCells row)"

text \<open>
  The entries of \<open>n\<close> rows pulled and written without error: the row pulled with index
  \<open>idx + j\<close> is written at row number \<open>rowID + j\<close>.
\<close>

definition rows_log ::
  "(int \<Rightarrow> ('v, 'o) Row \<Rightarrow> ('v, 'o) call list) \<Rightarrow> (int \<Rightarrow> ('v, 'o) Row) \<Rightarrow> int \<Rightarrow> int \<Rightarrow> nat
     \<Rightarrow> ('v, 'o) history" where
  "rows_log wr rowf rowID idx n =
     concat (map (\<lambda>j. (RowFunc_call (idx + int j), None) # ok (wr (rowID + int j) (rowf (idx + int j))))
               [0..<n])"

text \<open>
  A row source that feeds exactly \<open>n\<close> rows: pulled with an index below \<open>n\<close> it returns
  the row \<open>rowf i\<close>, whose cells are present, and pulled with index \<open>n\<close> it returns a row
  whose cells are absent.
\<close>

definition feeds :: "('v, 'o) SheetData \<Rightarrow> (int \<Rightarrow> ('v, 'o) Row) \<Rightarrow> nat \<Rightarrow> bool" where
  "feeds sheet rowf n =
     ((\<forall>h i. 0 \<le> i \<and> i < int n \<longrightarrow> RowFunc sheet h i = Inr (rowf i) \<and> Cells (rowf i) \<noteq> None) \<and>
      (\<forall>h. \<exists>row. RowFunc sheet h (int n) = Inr row \<and> Cells row = None))"

section \<open>Observing a run\<close>

text \<open>
  The definitions of this section read a history; the code does not use them.
\<close>

text \<open>
  The calls the two callbacks of \<^verbatim>\<open>exportHelper\<close> make (cell and stream calls, the
  hook), and the calls \<^verbatim>\<open>exportHelper\<close> makes in all (these, the pulls and
  \<^verbatim>\<open>NewSheet\<close>).
\<close>

fun callback_call :: "('v, 'o) call \<Rightarrow> bool" where
  "callback_call (File_NewSheet n) = False"
| "callback_call (File_DeleteSheet n) = False"
| "callback_call (File_SaveAs p) = False"
| "callback_call File_Close = False"
| "callback_call (RowFunc_call i) = False"
| "callback_call c = True"

fun helper_call :: "('v, 'o) call \<Rightarrow> bool" where
  "helper_call (File_DeleteSheet n) = False"
| "helper_call (File_SaveAs p) = False"
| "helper_call File_Close = False"
| "helper_call c = True"

text \<open>
  One iteration of the loop from the \<^verbatim>\<open>rowID > SheetMaxRows\<close> test to the write: a name
  for that part of \<open>exportHelper_loop\<close>, which \<open>loop_Suc_cases\<close> below relates to it.
\<close>

definition row_step ::
  "('v, 'o) backend \<Rightarrow> ('v, 'o) SheetData
     \<Rightarrow> (string \<Rightarrow> ('v, 'o) Exporter \<Rightarrow> error option \<times> ('v, 'o) Exporter)
     \<Rightarrow> (string \<Rightarrow> int \<Rightarrow> ('v, 'o) Row \<Rightarrow> ('v, 'o) Exporter \<Rightarrow> error option \<times> ('v, 'o) Exporter)
     \<Rightarrow> int \<Rightarrow> int \<Rightarrow> ('v, 'o) Row \<Rightarrow> ('v, 'o) Exporter \<Rightarrow> error option \<times> ('v, 'o) Exporter" where
  "row_step b sheet initFunc writeRowFunc rowID sheetSuffix row e =
     and_then (if SheetMaxRows < rowID
               then new_split_sheet b sheet initFunc (int64 (sheetSuffix + 1)) e else (None, e))
       (\<lambda>e2. writeRowFunc (CurrentSheet e2) (if SheetMaxRows < rowID then 1 else rowID) row e2)"

text \<open>
  \<open>grows P e e'\<close>: the history of \<open>e'\<close> extends that of \<open>e\<close> by calls that satisfy \<open>P\<close>,
  and the file name and the strategy flag are the same.
\<close>

definition grows :: "(('v, 'o) call \<Rightarrow> bool) \<Rightarrow> ('v, 'o) Exporter \<Rightarrow> ('v, 'o) Exporter \<Rightarrow> bool" where
  "grows P e e' =
     (\<exists>evs. File e' = File e @ evs \<and> list_all (\<lambda>x. P (fst x)) evs \<and>
            FileName e' = FileName e \<and> UseStreamWriter e' = UseStreamWriter e)"

text \<open>The sheet names of the \<^verbatim>\<open>DeleteSheet\<close> calls, and the indices of the pulls, in order.\<close>

definition deleted :: "('v, 'o) history \<Rightarrow> string list" where
  "deleted h = concat (map (\<lambda>x. case fst x of File_DeleteSheet n \<Rightarrow> [n] | _ \<Rightarrow> []) h)"

definition pulled :: "('v, 'o) history \<Rightarrow> int list" where
  "pulled h = concat (map (\<lambda>x. case fst x of RowFunc_call i \<Rightarrow> [i] | _ \<Rightarrow> []) h)"

text \<open>An answer of the row source that is the end-of-data sentinel.\<close>

definition is_sentinel :: "error + ('v, 'o) Row \<Rightarrow> bool" where
  "is_sentinel res = (case res of Inl err \<Rightarrow> False | Inr row \<Rightarrow> Cells row = None)"

text \<open>
  In the entries \<open>evs\<close> that follow the history \<open>h\<close>, no pull follows a pull that the
  row source answered with the sentinel.
\<close>

fun sentinel_last :: "('v, 'o) SheetData \<Rightarrow> ('v, 'o) history \<Rightarrow> ('v, 'o) history \<Rightarrow> bool" where
  "sentinel_last sheet h [] = True"
| "sentinel_last sheet h (x # evs) =
     ((case fst x of
         RowFunc_call i \<Rightarrow> \<not> is_sentinel (RowFunc sheet h i) \<or> pulled evs = []
       | _ \<Rightarrow> True) \<and>
      sentinel_last sheet (h @ [x]) evs)"

text \<open>
  No call of \<open>evs\<close> failed; exactly the last call of \<open>evs\<close> failed, with an error that
  \<open>err'\<close> is or wraps; a run that answered \<open>r\<close> and appended a history that fits \<open>r\<close>.
\<close>

definition clean :: "('v, 'o) history \<Rightarrow> bool" where
  "clean evs = list_all (\<lambda>x. snd x = None) evs"

definition failed_with :: "error \<Rightarrow> ('v, 'o) history \<Rightarrow> bool" where
  "failed_with err' evs =
     (\<exists>pre c err. evs = pre @ [(c, Some err)] \<and> clean pre \<and> (err' = err \<or> (\<exists>msg. err' = Errorf msg err)))"

definition outcome_ok :: "error option \<Rightarrow> ('v, 'o) history \<Rightarrow> bool" where
  "outcome_ok r evs = (case r of None \<Rightarrow> clean evs | Some err' \<Rightarrow> failed_with err' evs)"

definition ran :: "error option \<Rightarrow> ('v, 'o) Exporter \<Rightarrow> ('v, 'o) Exporter \<Rightarrow> bool" where
  "ran r e e' = (\<exists>evs. File e' = File e @ evs \<and> outcome_ok r evs)"

text \<open>The error a run has returned so far: none while it is still running.\<close>

definition error_of :: "status \<Rightarrow> error option" where
  "error_of st = (case st of OutOfFuel \<Rightarrow> None | Returned r \<Rightarrow> r)"

text \<open>
  The stream writer in force after the entries \<open>evs\<close>, which start at position \<open>k\<close> of
  the history with writer \<open>w\<close>: the one the last \<^verbatim>\<open>NewStreamWriter\<close> call returned, none
  if that call failed.
\<close>

fun writer_after :: "nat \<Rightarrow> nat option \<Rightarrow> ('v, 'o) history \<Rightarrow> nat option" where
  "writer_after k w [] = w"
| "writer_after k w (x # evs) =
     writer_after (Suc k)
       (case fst x of File_NewStreamWriter n \<Rightarrow> (if snd x = None then Some k else None) | _ \<Rightarrow> w) evs"

text \<open>
  A monitor of the flush discipline: every \<^verbatim>\<open>NewStreamWriter\<close> call made while a writer
  is in force comes right after a successful flush of that writer (\<open>fl\<close> says that the
  entry just before was one).
\<close>

fun flushed_before_switch :: "nat \<Rightarrow> nat option \<Rightarrow> bool \<Rightarrow> ('v, 'o) history \<Rightarrow> bool" where
  "flushed_before_switch k w fl [] = True"
| "flushed_before_switch k w fl (x # evs) =
     (case fst x of
        File_NewStreamWriter n \<Rightarrow>
          (w = None \<or> fl) \<and>
          flushed_before_switch (Suc k) (if snd x = None then Some k else None) False evs
      | Stream_Flush h \<Rightarrow> flushed_before_switch (Suc k) w (w = Some h \<and> snd x = None) evs
      | _ \<Rightarrow> flushed_before_switch (Suc k) w False evs)"

text \<open>
  \<open>tracks e e'\<close>: from \<open>e\<close> to \<open>e'\<close> the history was extended, the \<^verbatim>\<open>StreamWriter\<close> field
  followed the \<^verbatim>\<open>NewStreamWriter\<close> calls, and the monitor accepts the new entries.
\<close>

definition tracks :: "('v, 'o) Exporter \<Rightarrow> ('v, 'o) Exporter \<Rightarrow> bool" where
  "tracks e e' =
     (\<exists>evs. File e' = File e @ evs \<and>
            StreamWriter e' = writer_after (length (File e)) (StreamWriter e) evs \<and>
            flushed_before_switch (length (File e)) (StreamWriter e) False evs)"

text \<open>The calls that leave the stream writer alone.\<close>

fun quiet_call :: "('v, 'o) call \<Rightarrow> bool" where
  "quiet_call (File_NewStreamWriter n) = False"
| "quiet_call c = True"

section \<open>The sheet list of the workbook\<close>

text \<open>
  Modelled from the spec: the workbook backend (the \<^verbatim>\<open>excelize.File\<close> behind
  \<^verbatim>\<open>NewFile\<close>, \<^verbatim>\<open>NewSheet\<close>, \<^verbatim>\<open>DeleteSheet\<close> and the field \<^verbatim>\<open>SheetCount\<close>) is not in
  \<^verbatim>\<open>exporter.go\<close>. A fresh workbook holds one sheet, the default placeholder \<^verbatim>\<open>Sheet1\<close>.
  Creating a sheet under a name the workbook already has leaves the workbook as it is,
  otherwise the sheet is added. Deleting does nothing when one sheet is left or when no
  sheet has the name, otherwise the sheet of that name goes. \<^verbatim>\<open>SheetCount\<close> is the number of
  sheets. A call that failed changes nothing.

  Two names are the same sheet when they differ only in the case of their letters
  (\<^verbatim>\<open>strings.EqualFold\<close>). Names are byte strings here and the letters folded are the
  ASCII ones; Go folds the letters outside ASCII too.
\<close>

definition fold_case :: "char \<Rightarrow> char" where
  "fold_case c =
     (case map_of (zip ''ABCDEFGHIJKLMNOPQRSTUVWXYZ'' ''abcdefghijklmnopqrstuvwxyz'') c of
        Some l \<Rightarrow> l
      | None \<Rightarrow> c)"

definition EqualFold :: "string \<Rightarrow> string \<Rightarrow> bool" where
  "EqualFold s t = (map fold_case s = map fold_case t)"

definition workbook_step :: "string list \<Rightarrow> ('v, 'o) call \<times> error option \<Rightarrow> string list" where
  "workbook_step names x =
     (case x of
        (File_NewSheet n, None) \<Rightarrow>
          (if \<exists>m \<in> set names. EqualFold m n then names else names @ [n])
      | (File_DeleteSheet n, None) \<Rightarrow>
          (if length names = 1 \<or> \<not> (\<exists>m \<in> set names. EqualFold m n) then names
           else filter (\<lambda>m. \<not> EqualFold m n) names)
      | _ \<Rightarrow> names)"

definition workbook_sheets :: "('v, 'o) history \<Rightarrow> string list" where
  "workbook_sheets h = foldl workbook_step [''Sheet1''] h"

text \<open>
  A backend on such a workbook: which calls fail and how cells are named stay those of
  \<open>b\<close>, the sheet count is that of the sheet list.
\<close>

definition counting_sheets :: "('v, 'o) backend \<Rightarrow> ('v, 'o) backend" where
  "counting_sheets b = b\<lparr>SheetCount := (\<lambda>h. int (length (workbook_sheets h)))\<rparr>"

section \<open>Examples\<close>

text \<open>Concrete collaborators, on which the theorems are instantiated.\<close>

definition example_backend :: "(int, unit) backend" where
  "example_backend =
     \<lparr>respond = (\<lambda>h c. None), SheetCount = (\<lambda>h. 1),
      CoordinatesToCellName = (\<lambda>col row. decimal (nat col) @ '','' @ decimal (nat row))\<rparr>"

definition example_row :: "(int, unit) Row" where
  "example_row = \<lparr>Cells = Some [\<lparr>Value = 7, StyleID = 0, Formula = []\<rparr>], MergeCells = [], RowOpts = []\<rparr>"

definition zero_width_row :: "(int, unit) Row" where
  "zero_width_row =
     \<lparr>Cells = Some [], MergeCells = [\<lparr>TopLeftCell = ''A1'', BottomRightCell = ''B1''\<rparr>], RowOpts = []\<rparr>"

definition example_sheet :: "string \<Rightarrow> (int, unit) Row \<Rightarrow> nat \<Rightarrow> (int, unit) SheetData" where
  "example_sheet name row n =
     \<lparr>Name = name, RowFunc = (\<lambda>h i. Inr (if i < int n then row else Row_zero)), InitFunc = None\<rparr>"

text \<open>
  A workbook double: its sheet count is the length of the sheet list, and no call fails
  on it.
\<close>

definition workbook_double :: "(int, unit) backend" where
  "workbook_double =
     \<lparr>respond = (\<lambda>h c. None), SheetCount = (\<lambda>h. int (length (workbook_sheets h))),
      CoordinatesToCellName = (\<lambda>col row. decimal (nat col) @ '','' @ decimal (nat row))\<rparr>"

text \<open>A backend that refuses one sheet name.\<close>

definition picky_backend :: "(int, unit) backend" where
  "picky_backend =
     \<lparr>respond = (\<lambda>h c. case c of
                   File_NewSheet n \<Rightarrow> if n = ''bad:name'' then Some (Error ''invalid sheet name'') else None
                 | _ \<Rightarrow> None),
      SheetCount = (\<lambda>h. 1),
      CoordinatesToCellName = (\<lambda>col row. decimal (nat col) @ '','' @ decimal (nat row))\<rparr>"

section \<open>The channel adapter\<close>

text \<open>
  \<^verbatim>\<open>UseRowChan\<close> returns a closure over three variables: the \<^verbatim>\<open>sync.Once\<close>, the channel
  \<^verbatim>\<open>dataCh\<close> and \<^verbatim>\<open>sendErr\<close>. The first call makes the channel and starts one goroutine,
  which runs \<^verbatim>\<open>sendDataFunc\<close>, stores what it returns in \<^verbatim>\<open>sendErr\<close> and then closes the
  channel (the deferred \<^verbatim>\<open>close\<close>). Every call receives from the channel, then reads
  \<^verbatim>\<open>sendErr\<close>, then looks at the \<^verbatim>\<open>ok\<close> of the receive.

  The producer function is described by what it does to the channel: the rows it sends, in
  order, and the value it returns. The channel is unbuffered, so a send and its receive are
  one step. The goroutine and the caller are interleaved step by step, every read seeing the
  last value stored (the interleavings of a sequentially consistent execution).
\<close>

datatype chan = Open | Closed

datatype ('v, 'o) goroutine = NotStarted | Sending "('v, 'o) Row list" | Assigned | Exited

record ('v, 'o) producer =
  emits :: "('v, 'o) Row list"
  result :: "error option"

record ('v, 'o) adapter =
  once_done :: bool
  dataCh :: "chan option"
  sendErr :: "error option"
  goroutine :: "('v, 'o) goroutine"

text \<open>
  Where the caller of the row function stands: outside a call, blocked in the receive, or
  past the receive with the row and the \<^verbatim>\<open>ok\<close> it got, about to read \<^verbatim>\<open>sendErr\<close>.
\<close>

datatype ('v, 'o) consumer = Idle | Receiving | Checking "('v, 'o) Row" bool

definition UseRowChan :: "('v, 'o) adapter" where
  "UseRowChan = \<lparr>once_done = False, dataCh = None, sendErr = None, goroutine = NotStarted\<rparr>"

text \<open>
  One step of either side; the label is what a call returns, on the step that returns.
  \<^item> \<open>first_call\<close>, \<open>later_call\<close>: \<^verbatim>\<open>once.Do\<close>, which makes the channel and starts the
    goroutine the first time only;
  \<^item> \<open>rendezvous\<close>: the goroutine sends its next row and the caller receives it;
  \<^item> \<open>receive_closed\<close>: a receive on the closed channel gives the zero row and \<^verbatim>\<open>ok = false\<close>;
  \<^item> \<open>return\<close>: the two tests after the receive, \<^verbatim>\<open>sendErr != nil\<close> first, then \<^verbatim>\<open>!ok\<close>;
  \<^item> \<open>producer_returns\<close>: \<^verbatim>\<open>sendErr = sendDataFunc(dataCh)\<close>, once every row is sent;
  \<^item> \<open>producer_closes\<close>: the deferred \<^verbatim>\<open>close(dataCh)\<close>.
\<close>

inductive step :: "('v, 'o) producer \<Rightarrow> ('v, 'o) adapter \<times> ('v, 'o) consumer
    \<Rightarrow> (error + ('v, 'o) Row) option \<Rightarrow> ('v, 'o) adapter \<times> ('v, 'o) consumer \<Rightarrow> bool"
  for p :: "('v, 'o) producer" where
  first_call: "\<not> once_done s \<Longrightarrow> step p (s, Idle) None
       (s\<lparr>once_done := True, dataCh := Some Open, goroutine := Sending (emits p)\<rparr>, Receiving)"
| later_call: "once_done s \<Longrightarrow> step p (s, Idle) None (s, Receiving)"
| rendezvous: "dataCh s = Some Open \<Longrightarrow> goroutine s = Sending (row # rows) \<Longrightarrow>
     step p (s, Receiving) None (s\<lparr>goroutine := Sending rows\<rparr>, Checking row True)"
| receive_closed: "dataCh s = Some Closed \<Longrightarrow>
     step p (s, Receiving) None (s, Checking Row_zero False)"
| return: "step p (s, Checking row okay)
       (Some (case sendErr s of
                Some err \<Rightarrow> Inl err
              | None \<Rightarrow> if \<not> okay then Inr Row_zero else Inr row))
       (s, Idle)"
| producer_returns: "goroutine s = Sending [] \<Longrightarrow>
     step p (s, c) None (s\<lparr>sendErr := result p, goroutine := Assigned\<rparr>, c)"
| producer_closes: "goroutine s = Assigned \<Longrightarrow>
     step p (s, c) None (s\<lparr>dataCh := Some Closed, goroutine := Exited\<rparr>, c)"

code_pred step .

text \<open>A run is a sequence of steps; it collects what the calls returned, in order.\<close>

inductive run :: "('v, 'o) producer \<Rightarrow> ('v, 'o) adapter \<times> ('v, 'o) consumer
    \<Rightarrow> (error + ('v, 'o) Row) list \<Rightarrow> ('v, 'o) adapter \<times> ('v, 'o) consumer \<Rightarrow> bool"
  for p :: "('v, 'o) producer" where
  run_stop: "run p cfg [] cfg"
| run_silent: "step p cfg None cfg' \<Longrightarrow> run p cfg' rs cfg'' \<Longrightarrow> run p cfg rs cfg''"
| run_return: "step p cfg (Some r) cfg' \<Longrightarrow> run p cfg' rs cfg'' \<Longrightarrow> run p cfg (r # rs) cfg''"

code_pred run .

text \<open>The caller has received a row that it has not returned yet.\<close>

fun holds_row :: "('v, 'o) consumer \<Rightarrow> bool" where
  "holds_row (Checking row okay) = okay"
| "holds_row _ = False"

text \<open>
  What a call returns once the channel is closed: the error the producer returned, or the
  zero row, whose cells are absent.
\<close>

definition after_close :: "('v, 'o) producer \<Rightarrow> error + ('v, 'o) Row" where
  "after_close p = (case result p of Some err \<Rightarrow> Inl err | None \<Rightarrow> Inr Row_zero)"

text \<open>How far the goroutine is determines the three variables of the closure.\<close>

definition consistent :: "('v, 'o) producer \<Rightarrow> ('v, 'o) adapter \<Rightarrow> bool" where
  "consistent p s =
    (case goroutine s of
       NotStarted \<Rightarrow> \<not> once_done s \<and> dataCh s = None \<and> sendErr s = None
     | Sending rows \<Rightarrow> once_done s \<and> dataCh s = Some Open \<and> sendErr s = None
     | Assigned \<Rightarrow> once_done s \<and> dataCh s = Some Open \<and> sendErr s = result p
     | Exited \<Rightarrow> once_done s \<and> dataCh s = Some Closed \<and> sendErr s = result p)"

text \<open>A producer that sends nothing, and the closure variables once its goroutine is gone.\<close>

definition silent_producer :: "error option \<Rightarrow> (int, unit) producer" where
  "silent_producer res = \<lparr>emits = [], result = res\<rparr>"

definition drained :: "error option \<Rightarrow> (int, unit) adapter" where
  "drained res = \<lparr>once_done = True, dataCh = Some Closed, sendErr = res, goroutine = Exited\<rparr>"

definition query_failed :: error where
  "query_failed = Error ''query failed''"

section \<open>Sequencing\<close>

lemma and_then_None [simp]: "and_then (None, s) k = k s"
  by (simp add: and_then_def)

lemma and_then_Some [simp]: "and_then (Some err, s) k = (Some err, s)"
  by (simp add: and_then_def)

lemma and_then_assoc: "and_then (and_then r f) g = and_then r (\<lambda>s. and_then (f s) g)"
  by (cases r) (auto simp: and_then_def split: option.splits)

lemma and_then_ext: "(\<And>s. f s = g s) \<Longrightarrow> and_then r f = and_then r g"
  by (cases r) (auto simp: and_then_def split: option.splits)

lemma invoke_eq:
  "invoke b c e = (respond b (File e) c, e\<lparr>File := File e @ [(c, respond b (File e) c)]\<rparr>)"
  by (simp add: invoke_def Let_def)

lemma perform_append: "perform b (xs @ ys) e = and_then (perform b xs e) (perform b ys)"
  by (induction xs arbitrary: e) (auto simp: and_then_assoc intro: and_then_ext)

section \<open>The buffered strategy writes a row cell by cell\<close>

lemma mem_cell_perform:
  "mem_cell b sheetName rowID (int j) cell e =
     perform b (buffered_cell_calls b sheetName rowID j cell) e"
  by (simp add: mem_cell_def buffered_cell_calls_def Let_def and_then_def
           split: prod.splits option.splits)

lemma mem_cells_perform:
  "mem_cells b sheetName rowID (int j) cells e =
     perform b (concat (map (\<lambda>(j, cell). buffered_cell_calls b sheetName rowID j cell)
                          (enumerate j cells))) e"
proof (induction cells arbitrary: j e)
  case Nil
  show ?case by simp
next
  case (Cons cell rest)
  have step: "int j + 1 = int (Suc j)" by simp
  have rest: "mem_cells b sheetName rowID (int (Suc j)) rest =
      perform b (concat (map (\<lambda>(j, cell). buffered_cell_calls b sheetName rowID j cell)
                           (enumerate (Suc j) rest)))"
    by (rule ext) (rule Cons.IH)
  show ?case
    unfolding mem_cells.simps step enumerate_simps list.map concat.simps perform_append rest
    by (simp add: mem_cell_perform del: of_nat_Suc)
qed

lemma mem_merges_perform:
  "mem_merges b sheetName merges e =
     perform b (map (\<lambda>m. File_MergeCell sheetName (TopLeftCell m) (BottomRightCell m)) merges) e"
  by (induction merges arbitrary: e) (auto intro: and_then_ext)

lemma mem_writeRowFunc_perform:
  "mem_writeRowFunc b sheetName rowID row e =
     perform b (buffered_row_calls b sheetName rowID
                  (case Cells row of None \<Rightarrow> [] | Some cs \<Rightarrow> cs) (MergeCells row)) e"
  using mem_cells_perform [of b sheetName rowID 0]
  by (auto simp add: mem_writeRowFunc_def buffered_row_calls_def perform_append mem_merges_perform
           intro!: and_then_ext)

text \<open>
  C7. In the buffered strategy, writing a row makes exactly the calls of
  \<open>buffered_row_calls\<close>, in that order, up to the first call that fails: for the cell at
  0-based position \<open>j\<close> the value goes to coordinate \<open>(j + 1, rowNumber)\<close>, the style is
  set if and only if \<open>StyleID > 0\<close>, the formula is set if and only if the formula string
  is not empty, and the merges of the row come after all its cells.
\<close>

theorem buffered_write_row_calls:
  "mem_writeRowFunc b sheetName rowNumber \<lparr>Cells = Some cells, MergeCells = merges, RowOpts = opts\<rparr> e =
     perform b
       (concat (map (\<lambda>(j, cell).
                  [File_SetCellValue sheetName (CoordinatesToCellName b (int j + 1) rowNumber) (Value cell)]
                  @ (if StyleID cell > 0
                     then [File_SetCellStyle sheetName (CoordinatesToCellName b (int j + 1) rowNumber)
                             (CoordinatesToCellName b (int j + 1) rowNumber) (StyleID cell)]
                     else [])
                  @ (if Formula cell \<noteq> []
                     then [File_SetCellFormula sheetName (CoordinatesToCellName b (int j + 1) rowNumber)
                             (Formula cell)]
                     else []))
                (enumerate 0 cells))
        @ map (\<lambda>m. File_MergeCell sheetName (TopLeftCell m) (BottomRightCell m)) merges) e"
  using mem_writeRowFunc_perform [of b sheetName rowNumber
          "\<lparr>Cells = Some cells, MergeCells = merges, RowOpts = opts\<rparr>" e]
  by (simp add: buffered_row_calls_def buffered_cell_calls_def Let_def)

section \<open>Runs on which nothing fails\<close>

declare exportHelper_loop.simps [simp del]

lemma wrap_err_None [simp]: "wrap_err msg (None, s) = (None, s)"
  by (simp add: wrap_err_def)

lemma wrap_err_Some [simp]: "wrap_err msg (Some err, s) = (Some (Errorf msg err), s)"
  by (simp add: wrap_err_def)

lemma perform_never_fails:
  "never_fails b \<Longrightarrow> perform b cs e = (None, e\<lparr>File := File e @ ok cs\<rparr>)"
  by (induction cs arbitrary: e) (simp_all add: invoke_eq never_fails_def ok_def)

lemma stream_merges_perform:
  "stream_merges b sw merges e =
     perform b (map (\<lambda>m. Stream_MergeCell sw (TopLeftCell m) (BottomRightCell m)) merges) e"
  by (induction merges arbitrary: e) (auto intro: and_then_ext)

lemma stream_writeRowFunc_perform:
  "StreamWriter e = Some sw \<Longrightarrow>
   stream_writeRowFunc b sheetName rowID row e = perform b (stream_row_calls b sw rowID row) e"
  by (auto simp: stream_writeRowFunc_def stream_row_calls_def cells_of_def Let_def stream_merges_perform
           intro!: and_then_ext)

lemma mem_write_ok:
  "never_fails b \<Longrightarrow>
   mem_writeRowFunc b sheetName rowID row e =
     (None, e\<lparr>File := File e @ ok (buffered_calls b sheetName rowID row)\<rparr>)"
  by (simp add: mem_writeRowFunc_perform perform_never_fails buffered_calls_def cells_of_def)

lemma stream_write_ok:
  "never_fails b \<Longrightarrow> StreamWriter e = Some sw \<Longrightarrow>
   stream_writeRowFunc b sheetName rowID row e =
     (None, e\<lparr>File := File e @ ok (stream_row_calls b sw rowID row)\<rparr>)"
  by (simp add: stream_writeRowFunc_perform perform_never_fails)

lemma mem_init_ok:
  "hook_never_fails sheet \<Longrightarrow>
   mem_initFunc sheet sheetName e = (None, e\<lparr>File := File e @ hook_entry sheet (CurrentSheet e)\<rparr>)"
  by (auto simp: mem_initFunc_def hook_entry_def hook_never_fails_def call_InitFunc_def Let_def
           split: option.splits)

lemma stream_init_ok:
  "never_fails b \<Longrightarrow> hook_never_fails sheet \<Longrightarrow>
   stream_initFunc b sheet sheetName e =
     (None, e\<lparr>StreamWriter := Some (length (File e @ flush_entry (StreamWriter e))),
               File := File e @ flush_entry (StreamWriter e) @ [(File_NewStreamWriter sheetName, None)]
                       @ hook_entry sheet (CurrentSheet e)\<rparr>)"
  by (auto simp: stream_initFunc_def NewStreamWriter_def invoke_eq never_fails_def flush_entry_def
                 hook_entry_def hook_never_fails_def call_InitFunc_def Let_def
           split: option.splits)

lemma int64_id: "- (2 ^ 63) \<le> x \<Longrightarrow> x < 2 ^ 63 \<Longrightarrow> int64 x = x"
  by (simp add: int64_def)

lemma SheetMaxRows_bounds: "0 < SheetMaxRows" "SheetMaxRows < 2 ^ 62"
  by (simp_all add: SheetMaxRows_def)

lemma rows_log_Suc:
  "rows_log wr rowf rowID idx (Suc n) =
     (RowFunc_call idx, None) # ok (wr rowID (rowf idx)) @ rows_log wr rowf (rowID + 1) (idx + 1) n"
proof -
  have "[0..<Suc n] = 0 # [Suc 0..<Suc n]"
    by (rule upt_conv_Cons) simp
  also have "[Suc 0..<Suc n] = map Suc [0..<n]"
    by (simp only: map_Suc_upt)
  finally have "[0..<Suc n] = 0 # map Suc [0..<n]" .
  then show ?thesis
    by (simp add: rows_log_def comp_def add.assoc add.commute [of 1] del: upt_Suc)
qed

lemma rows_log_0 [simp]: "rows_log wr rowf rowID idx 0 = []"
  by (simp add: rows_log_def)

lemma loop_block:
  assumes W: "\<And>e r row. CurrentSheet e = cs \<Longrightarrow> StreamWriter e = sw \<Longrightarrow>
                writeRowFunc cs r row e = (None, e\<lparr>File := File e @ ok (wr r row)\<rparr>)"
    and S: "\<And>h i. idx \<le> i \<Longrightarrow> i < idx + int n \<Longrightarrow> RowFunc sheet h i = Inr (rowf i) \<and> Cells (rowf i) \<noteq> None"
    and B: "1 \<le> rowID" "rowID + int n \<le> SheetMaxRows + 1" "0 \<le> idx" "idx + int n < 2 ^ 63"
    and C: "CurrentSheet e = cs" "StreamWriter e = sw"
  shows "exportHelper_loop b sheet initFunc writeRowFunc (n + k) rowID sheetSuffix idx e =
         exportHelper_loop b sheet initFunc writeRowFunc k (rowID + int n) sheetSuffix (idx + int n)
           (e\<lparr>File := File e @ rows_log wr rowf rowID idx n\<rparr>)"
  using S B C
proof (induction n arbitrary: rowID idx e)
  case 0
  show ?case by simp
next
  case (Suc n)
  have "RowFunc sheet (File e) idx = Inr (rowf idx) \<and> Cells (rowf idx) \<noteq> None"
    using Suc.prems(1) [of idx "File e"] by simp
  then obtain cells where row: "RowFunc sheet (File e) idx = Inr (rowf idx)" "Cells (rowf idx) = Some cells"
    by auto
  have small: "\<not> rowID > SheetMaxRows" using Suc.prems(3) by simp
  let ?e1 = "e\<lparr>File := File e @ [(RowFunc_call idx, None)]\<rparr>"
  let ?e3 = "?e1\<lparr>File := File ?e1 @ ok (wr rowID (rowf idx))\<rparr>"
  have w: "writeRowFunc cs rowID (rowf idx) ?e1 = (None, ?e3)"
    using W [of ?e1 rowID "rowf idx"] Suc.prems by simp
  have i1: "int64 (rowID + 1) = rowID + 1"
    using Suc.prems(2,3) SheetMaxRows_bounds by (intro int64_id) simp_all
  have i2: "int64 (idx + 1) = idx + 1"
    using Suc.prems(4,5) by (intro int64_id) simp_all
  have step: "exportHelper_loop b sheet initFunc writeRowFunc (Suc n + k) rowID sheetSuffix idx e =
      exportHelper_loop b sheet initFunc writeRowFunc (n + k) (rowID + 1) sheetSuffix (idx + 1) ?e3"
    using row small w Suc.prems(6)
    by (simp add: exportHelper_loop.simps call_RowFunc_def Let_def i1 i2)
  have IH: "exportHelper_loop b sheet initFunc writeRowFunc (n + k) (rowID + 1) sheetSuffix (idx + 1) ?e3 =
      exportHelper_loop b sheet initFunc writeRowFunc k (rowID + 1 + int n) sheetSuffix (idx + 1 + int n)
        (?e3\<lparr>File := File ?e3 @ rows_log wr rowf (rowID + 1) (idx + 1) n\<rparr>)"
    using Suc.prems by (intro Suc.IH) simp_all
  show ?case
    unfolding step IH by (simp add: rows_log_Suc add.assoc add.commute [of 1])
qed

lemma loop_sentinel:
  "RowFunc sheet (File e) idx = Inr row \<Longrightarrow> Cells row = None \<Longrightarrow>
   exportHelper_loop b sheet initFunc writeRowFunc (Suc k) rowID sheetSuffix idx e =
     (Returned None, e\<lparr>File := File e @ [(RowFunc_call idx, None)]\<rparr>)"
  by (simp add: exportHelper_loop.simps call_RowFunc_def Let_def)

lemma helper_no_split:
  assumes W: "\<And>e r row. CurrentSheet e = Name sheet \<Longrightarrow> StreamWriter e = sw \<Longrightarrow>
                writeRowFunc (Name sheet) r row e = (None, e\<lparr>File := File e @ ok (wr r row)\<rparr>)"
    and I: "initFunc (Name sheet) (e\<lparr>CurrentSheet := Name sheet\<rparr>) = (None, e1)"
           "CurrentSheet e1 = Name sheet" "StreamWriter e1 = sw"
    and S: "\<And>h i. 0 \<le> i \<Longrightarrow> i < int n \<Longrightarrow> RowFunc sheet h i = Inr (rowf i) \<and> Cells (rowf i) \<noteq> None"
    and E: "\<And>h. \<exists>row. RowFunc sheet h (int n) = Inr row \<and> Cells row = None"
    and n: "int n \<le> SheetMaxRows" and fuel: "n < fuel"
  shows "exportHelper b sheet initFunc writeRowFunc fuel e =
           (Returned None,
            e1\<lparr>File := File e1 @ rows_log wr rowf 1 0 n @ [(RowFunc_call (int n), None)]\<rparr>)"
proof -
  obtain k where fuel_eq: "fuel = n + Suc k"
    using fuel less_iff_Suc_add by auto
  have bound: "int n < 2 ^ 63"
    using n SheetMaxRows_bounds by simp
  let ?e2 = "e1\<lparr>File := File e1 @ rows_log wr rowf 1 0 n\<rparr>"
  have block: "exportHelper_loop b sheet initFunc writeRowFunc (n + Suc k) 1 0 0 e1 =
      exportHelper_loop b sheet initFunc writeRowFunc (Suc k) (1 + int n) 0 (0 + int n) ?e2"
    using W S n bound I(2,3) by (intro loop_block) simp_all
  obtain row where row: "RowFunc sheet (File ?e2) (int n) = Inr row" "Cells row = None"
    using E by blast
  have last: "exportHelper_loop b sheet initFunc writeRowFunc (Suc k) (1 + int n) 0 (0 + int n) ?e2 =
      (Returned None, ?e2\<lparr>File := File ?e2 @ [(RowFunc_call (int n), None)]\<rparr>)"
    using loop_sentinel [OF row] by simp
  have "exportHelper b sheet initFunc writeRowFunc (n + Suc k) e =
      exportHelper_loop b sheet initFunc writeRowFunc (n + Suc k) 1 0 0 e1"
    using I(1) by (simp add: exportHelper_def del: add_Suc_right)
  also note block
  also note last
  finally show ?thesis
    unfolding fuel_eq by simp
qed

lemma Sprintf_1: "Sprintf_s_d name 1 = name @ ''_1''"
  by (simp add: Sprintf_s_d_def decimal.simps digit_char_def)

lemma mem_split_step:
  assumes nf: "never_fails b" and hf: "hook_never_fails sheet"
    and row: "RowFunc sheet (File e) idx = Inr row" "Cells row = Some cells"
    and over: "SheetMaxRows < rowID"
  shows "exportHelper_loop b sheet (mem_initFunc sheet) (mem_writeRowFunc b) (Suc k) rowID sheetSuffix idx e =
         exportHelper_loop b sheet (mem_initFunc sheet) (mem_writeRowFunc b) k
           (int64 2) (int64 (sheetSuffix + 1)) (int64 (idx + 1))
           (e\<lparr>CurrentSheet := Sprintf_s_d (Name sheet) (int64 (sheetSuffix + 1)),
              File := File e @ [(RowFunc_call idx, None),
                                (File_NewSheet (Sprintf_s_d (Name sheet) (int64 (sheetSuffix + 1))), None)]
                       @ hook_entry sheet (Sprintf_s_d (Name sheet) (int64 (sheetSuffix + 1)))
                       @ ok (buffered_calls b (Sprintf_s_d (Name sheet) (int64 (sheetSuffix + 1))) 1 row)\<rparr>)"
  using row over nf
  by (simp add: exportHelper_loop.simps call_RowFunc_def Let_def new_split_sheet_def invoke_eq
        mem_init_ok [OF hf] mem_write_ok [OF nf] never_fails_def)

lemma stream_split_step:
  assumes nf: "never_fails b" and hf: "hook_never_fails sheet"
    and row: "RowFunc sheet (File e) idx = Inr row" "Cells row = Some cells"
    and over: "SheetMaxRows < rowID"
    and sw: "StreamWriter e = Some sw"
  shows "exportHelper_loop b sheet (stream_initFunc b sheet) (stream_writeRowFunc b) (Suc k) rowID sheetSuffix idx e =
         exportHelper_loop b sheet (stream_initFunc b sheet) (stream_writeRowFunc b) k
           (int64 2) (int64 (sheetSuffix + 1)) (int64 (idx + 1))
           (e\<lparr>CurrentSheet := Sprintf_s_d (Name sheet) (int64 (sheetSuffix + 1)),
              StreamWriter := Some (length (File e) + 3),
              File := File e @ [(RowFunc_call idx, None),
                                (File_NewSheet (Sprintf_s_d (Name sheet) (int64 (sheetSuffix + 1))), None),
                                (Stream_Flush sw, None),
                                (File_NewStreamWriter (Sprintf_s_d (Name sheet) (int64 (sheetSuffix + 1))), None)]
                       @ hook_entry sheet (Sprintf_s_d (Name sheet) (int64 (sheetSuffix + 1)))
                       @ ok (stream_row_calls b (length (File e) + 3) 1 row)\<rparr>)"
  using row over nf sw
  by (simp add: exportHelper_loop.simps call_RowFunc_def Let_def new_split_sheet_def invoke_eq
        stream_init_ok [OF nf hf] stream_write_ok [OF nf] never_fails_def flush_entry_def
        numeral_3_eq_3)

lemma feedsD:
  assumes "feeds sheet rowf n"
  shows "\<And>h i. 0 \<le> i \<Longrightarrow> i < int n \<Longrightarrow> RowFunc sheet h i = Inr (rowf i) \<and> Cells (rowf i) \<noteq> None"
    and "\<And>h. \<exists>row. RowFunc sheet h (int n) = Inr row \<and> Cells row = None"
  using assms by (auto simp: feeds_def)

lemma mem_no_split:
  assumes nf: "never_fails b" and hf: "hook_never_fails sheet"
    and src: "feeds sheet rowf n" and n: "int n \<le> SheetMaxRows" and fuel: "n < fuel"
  shows "exportUsingMemory b fuel sheet e =
           (Returned None,
            e\<lparr>CurrentSheet := Name sheet,
              File := File e @ hook_entry sheet (Name sheet)
                      @ rows_log (buffered_calls b (Name sheet)) rowf 1 0 n
                      @ [(RowFunc_call (int n), None)]\<rparr>)"
proof -
  let ?e1 = "e\<lparr>CurrentSheet := Name sheet, File := File e @ hook_entry sheet (Name sheet)\<rparr>"
  have "exportHelper b sheet (mem_initFunc sheet) (mem_writeRowFunc b) fuel e =
      (Returned None, ?e1\<lparr>File := File ?e1 @ rows_log (buffered_calls b (Name sheet)) rowf 1 0 n
                                 @ [(RowFunc_call (int n), None)]\<rparr>)"
  proof (rule helper_no_split [where sw = "StreamWriter e"])
    show "mem_initFunc sheet (Name sheet) (e\<lparr>CurrentSheet := Name sheet\<rparr>) = (None, ?e1)"
      by (simp add: mem_init_ok [OF hf])
  qed (use src n fuel in \<open>simp_all add: mem_write_ok [OF nf] feedsD\<close>)
  then show ?thesis
    by (simp add: exportUsingMemory_def)
qed

lemma stream_no_split:
  assumes nf: "never_fails b" and hf: "hook_never_fails sheet"
    and src: "feeds sheet rowf n" and n: "int n \<le> SheetMaxRows" and fuel: "n < fuel"
    and h: "h = length (File e @ flush_entry (StreamWriter e))"
  shows "exportUsingStreamWriter b fuel sheet e =
           (Returned None,
            e\<lparr>CurrentSheet := Name sheet, StreamWriter := Some h,
              File := File e @ flush_entry (StreamWriter e) @ [(File_NewStreamWriter (Name sheet), None)]
                      @ hook_entry sheet (Name sheet)
                      @ rows_log (stream_row_calls b h) rowf 1 0 n
                      @ [(RowFunc_call (int n), None), (Stream_Flush h, None)]\<rparr>)"
proof -
  let ?e1 = "e\<lparr>CurrentSheet := Name sheet, StreamWriter := Some h,
               File := File e @ flush_entry (StreamWriter e) @ [(File_NewStreamWriter (Name sheet), None)]
                       @ hook_entry sheet (Name sheet)\<rparr>"
  have "exportHelper b sheet (stream_initFunc b sheet) (stream_writeRowFunc b) fuel e =
      (Returned None, ?e1\<lparr>File := File ?e1 @ rows_log (stream_row_calls b h) rowf 1 0 n
                                 @ [(RowFunc_call (int n), None)]\<rparr>)"
  proof (rule helper_no_split [where sw = "Some h"])
    show "stream_initFunc b sheet (Name sheet) (e\<lparr>CurrentSheet := Name sheet\<rparr>) = (None, ?e1)"
      by (simp add: stream_init_ok [OF nf hf] h)
  qed (use src n fuel in \<open>simp_all add: stream_write_ok [OF nf] feedsD\<close>)
  then show ?thesis
    using nf by (simp add: exportUsingStreamWriter_def invoke_eq never_fails_def)
qed

lemma int64_small: "int64 1 = 1" "int64 2 = 2"
  by (simp_all add: int64_def)

lemma int64_Max: "int64 (SheetMaxRows + 1) = SheetMaxRows + 1"
  by (simp add: int64_def SheetMaxRows_def)

lemma rows_log_1: "rows_log wr rowf rowID idx (Suc 0) = (RowFunc_call idx, None) # ok (wr rowID (rowf idx))"
  by (simp add: rows_log_Suc)

lemma mem_one_split:
  assumes nf: "never_fails b" and hf: "hook_never_fails sheet"
    and src: "feeds sheet rowf (nat SheetMaxRows + 1)" and fuel: "nat SheetMaxRows + 1 < fuel"
  shows "exportUsingMemory b fuel sheet e =
           (Returned None,
            e\<lparr>CurrentSheet := Name sheet @ ''_1'',
              File := File e @ hook_entry sheet (Name sheet)
                      @ rows_log (buffered_calls b (Name sheet)) rowf 1 0 (nat SheetMaxRows)
                      @ [(RowFunc_call SheetMaxRows, None), (File_NewSheet (Name sheet @ ''_1''), None)]
                      @ hook_entry sheet (Name sheet @ ''_1'')
                      @ ok (buffered_calls b (Name sheet @ ''_1'') 1 (rowf SheetMaxRows))
                      @ [(RowFunc_call (SheetMaxRows + 1), None)]\<rparr>)"
proof -
  let ?M = "nat SheetMaxRows"
  let ?init = "mem_initFunc sheet" and ?wr = "mem_writeRowFunc b"
  have M: "int ?M = SheetMaxRows"
    using SheetMaxRows_bounds by simp
  have M1: "int (?M + 1) = SheetMaxRows + 1"
    using SheetMaxRows_bounds by simp
  obtain k where fuel_eq: "fuel = ?M + Suc (Suc k)"
    using fuel less_iff_Suc_add [of "?M + 1" fuel] by auto
  let ?e1 = "e\<lparr>CurrentSheet := Name sheet, File := File e @ hook_entry sheet (Name sheet)\<rparr>"
  let ?e2 = "?e1\<lparr>File := File ?e1 @ rows_log (buffered_calls b (Name sheet)) rowf 1 0 ?M\<rparr>"
  have start: "exportHelper b sheet ?init ?wr (?M + Suc (Suc k)) e =
      exportHelper_loop b sheet ?init ?wr (?M + Suc (Suc k)) 1 0 0 ?e1"
    by (simp add: exportHelper_def mem_init_ok [OF hf] del: add_Suc_right)
  have block: "exportHelper_loop b sheet ?init ?wr (?M + Suc (Suc k)) 1 0 0 ?e1 =
      exportHelper_loop b sheet ?init ?wr (Suc (Suc k)) (1 + int ?M) 0 (0 + int ?M) ?e2"
  proof (rule loop_block [where cs = "Name sheet" and sw = "StreamWriter e"])
    show "RowFunc sheet h i = Inr (rowf i) \<and> Cells (rowf i) \<noteq> None" if "0 \<le> i" "i < 0 + int ?M" for h i
      using feedsD(1) [OF src, of i h] that by simp
  qed (use SheetMaxRows_bounds in \<open>simp_all add: mem_write_ok [OF nf]\<close>)
  have "RowFunc sheet (File ?e2) SheetMaxRows = Inr (rowf SheetMaxRows) \<and> Cells (rowf SheetMaxRows) \<noteq> None"
    using feedsD(1) [OF src, of SheetMaxRows "File ?e2"] SheetMaxRows_bounds by simp
  then obtain cells where row: "RowFunc sheet (File ?e2) SheetMaxRows = Inr (rowf SheetMaxRows)"
      "Cells (rowf SheetMaxRows) = Some cells"
    by auto
  let ?e3 = "?e2\<lparr>CurrentSheet := Name sheet @ ''_1'',
                File := File ?e2 @ [(RowFunc_call SheetMaxRows, None),
                                    (File_NewSheet (Name sheet @ ''_1''), None)]
                        @ hook_entry sheet (Name sheet @ ''_1'')
                        @ ok (buffered_calls b (Name sheet @ ''_1'') 1 (rowf SheetMaxRows))\<rparr>"
  have split: "exportHelper_loop b sheet ?init ?wr (Suc (Suc k)) (1 + int ?M) 0 (0 + int ?M) ?e2 =
      exportHelper_loop b sheet ?init ?wr (Suc k) 2 1 (SheetMaxRows + 1) ?e3"
    using mem_split_step [OF nf hf row, of "1 + SheetMaxRows" "Suc k" 0] SheetMaxRows_bounds(1)
    by (simp add: int64_small int64_Max Sprintf_1 add.commute [of 1])
  obtain last where last: "RowFunc sheet (File ?e3) (SheetMaxRows + 1) = Inr last" "Cells last = None"
    using feedsD(2) [OF src, of "File ?e3"] unfolding M1 by blast
  have stop: "exportHelper_loop b sheet ?init ?wr (Suc k) 2 1 (SheetMaxRows + 1) ?e3 =
      (Returned None, ?e3\<lparr>File := File ?e3 @ [(RowFunc_call (SheetMaxRows + 1), None)]\<rparr>)"
    by (rule loop_sentinel [OF last])
  show ?thesis
    unfolding exportUsingMemory_def fuel_eq start block split stop by simp
qed

lemma stream_one_split:
  assumes nf: "never_fails b" and hf: "hook_never_fails sheet"
    and src: "feeds sheet rowf (nat SheetMaxRows + 1)" and fuel: "nat SheetMaxRows + 1 < fuel"
    and h1: "h1 = length (File e @ flush_entry (StreamWriter e))"
    and h2: "h2 = length (File e @ flush_entry (StreamWriter e) @ [(File_NewStreamWriter (Name sheet), None)]
                      @ hook_entry sheet (Name sheet)
                      @ rows_log (stream_row_calls b h1) rowf 1 0 (nat SheetMaxRows)) + 3"
  shows "exportUsingStreamWriter b fuel sheet e =
           (Returned None,
            e\<lparr>CurrentSheet := Name sheet @ ''_1'', StreamWriter := Some h2,
              File := File e @ flush_entry (StreamWriter e) @ [(File_NewStreamWriter (Name sheet), None)]
                      @ hook_entry sheet (Name sheet)
                      @ rows_log (stream_row_calls b h1) rowf 1 0 (nat SheetMaxRows)
                      @ [(RowFunc_call SheetMaxRows, None), (File_NewSheet (Name sheet @ ''_1''), None),
                         (Stream_Flush h1, None), (File_NewStreamWriter (Name sheet @ ''_1''), None)]
                      @ hook_entry sheet (Name sheet @ ''_1'')
                      @ ok (stream_row_calls b h2 1 (rowf SheetMaxRows))
                      @ [(RowFunc_call (SheetMaxRows + 1), None), (Stream_Flush h2, None)]\<rparr>)"
proof -
  let ?M = "nat SheetMaxRows"
  let ?init = "stream_initFunc b sheet" and ?wr = "stream_writeRowFunc b"
  have M1: "int (?M + 1) = SheetMaxRows + 1"
    using SheetMaxRows_bounds by simp
  obtain k where fuel_eq: "fuel = ?M + Suc (Suc k)"
    using fuel less_iff_Suc_add [of "?M + 1" fuel] by auto
  let ?e1 = "e\<lparr>CurrentSheet := Name sheet, StreamWriter := Some h1,
               File := File e @ flush_entry (StreamWriter e) @ [(File_NewStreamWriter (Name sheet), None)]
                       @ hook_entry sheet (Name sheet)\<rparr>"
  let ?e2 = "?e1\<lparr>File := File ?e1 @ rows_log (stream_row_calls b h1) rowf 1 0 ?M\<rparr>"
  have start: "exportHelper b sheet ?init ?wr (?M + Suc (Suc k)) e =
      exportHelper_loop b sheet ?init ?wr (?M + Suc (Suc k)) 1 0 0 ?e1"
    by (simp add: exportHelper_def stream_init_ok [OF nf hf] h1 del: add_Suc_right)
  have block: "exportHelper_loop b sheet ?init ?wr (?M + Suc (Suc k)) 1 0 0 ?e1 =
      exportHelper_loop b sheet ?init ?wr (Suc (Suc k)) (1 + int ?M) 0 (0 + int ?M) ?e2"
  proof (rule loop_block [where cs = "Name sheet" and sw = "Some h1"])
    show "RowFunc sheet h i = Inr (rowf i) \<and> Cells (rowf i) \<noteq> None" if "0 \<le> i" "i < 0 + int ?M" for h i
      using feedsD(1) [OF src, of i h] that by simp
  qed (use SheetMaxRows_bounds in \<open>simp_all add: stream_write_ok [OF nf]\<close>)
  have "RowFunc sheet (File ?e2) SheetMaxRows = Inr (rowf SheetMaxRows) \<and> Cells (rowf SheetMaxRows) \<noteq> None"
    using feedsD(1) [OF src, of SheetMaxRows "File ?e2"] SheetMaxRows_bounds by simp
  then obtain cells where row: "RowFunc sheet (File ?e2) SheetMaxRows = Inr (rowf SheetMaxRows)"
      "Cells (rowf SheetMaxRows) = Some cells"
    by auto
  have h2': "h2 = length (File ?e2) + 3"
    by (simp add: h2)
  let ?e3 = "?e2\<lparr>CurrentSheet := Name sheet @ ''_1'', StreamWriter := Some h2,
                File := File ?e2 @ [(RowFunc_call SheetMaxRows, None),
                                    (File_NewSheet (Name sheet @ ''_1''), None),
                                    (Stream_Flush h1, None),
                                    (File_NewStreamWriter (Name sheet @ ''_1''), None)]
                        @ hook_entry sheet (Name sheet @ ''_1'')
                        @ ok (stream_row_calls b h2 1 (rowf SheetMaxRows))\<rparr>"
  have split: "exportHelper_loop b sheet ?init ?wr (Suc (Suc k)) (1 + int ?M) 0 (0 + int ?M) ?e2 =
      exportHelper_loop b sheet ?init ?wr (Suc k) 2 1 (SheetMaxRows + 1) ?e3"
    using stream_split_step [OF nf hf row, of "1 + SheetMaxRows" h1 "Suc k" 0] SheetMaxRows_bounds(1)
    unfolding h2' [symmetric]
    by (simp add: int64_small int64_Max Sprintf_1 add.commute [of 1])
  obtain last where last: "RowFunc sheet (File ?e3) (SheetMaxRows + 1) = Inr last" "Cells last = None"
    using feedsD(2) [OF src, of "File ?e3"] unfolding M1 by blast
  have stop: "exportHelper_loop b sheet ?init ?wr (Suc k) 2 1 (SheetMaxRows + 1) ?e3 =
      (Returned None, ?e3\<lparr>File := File ?e3 @ [(RowFunc_call (SheetMaxRows + 1), None)]\<rparr>)"
    by (rule loop_sentinel [OF last])
  show ?thesis
    unfolding exportUsingStreamWriter_def fuel_eq start block split stop
    using nf by (simp add: invoke_eq never_fails_def)
qed

lemma example_backend_never_fails: "never_fails example_backend"
  by (simp add: never_fails_def example_backend_def)

lemma example_sheet_hook: "hook_never_fails (example_sheet name row n)"
  by (simp add: hook_never_fails_def example_sheet_def)

lemma example_sheet_feeds: "Cells row \<noteq> None \<Longrightarrow> feeds (example_sheet name row n) (\<lambda>i. row) n"
  by (simp add: feeds_def example_sheet_def Row_zero_def)

lemma buffered_calls_zero_width:
  "Cells row = Some [] \<Longrightarrow>
   buffered_calls b sheetName rowNumber row =
     map (\<lambda>m. File_MergeCell sheetName (TopLeftCell m) (BottomRightCell m)) (MergeCells row)"
  by (simp add: buffered_calls_def buffered_row_calls_def cells_of_def)

lemma stream_row_calls_zero_width:
  "Cells row = Some [] \<Longrightarrow>
   stream_row_calls b h rowNumber row =
     Stream_SetRow h (CoordinatesToCellName b 1 rowNumber) [] (RowOpts row)
     # map (\<lambda>m. Stream_MergeCell h (TopLeftCell m) (BottomRightCell m)) (MergeCells row)"
  by (simp add: stream_row_calls_def cells_of_def)

section \<open>Case analysis of a run\<close>

lemma and_then_cases [consumes 1, case_names failed passed]:
  assumes "and_then r k = (r', s')"
  obtains (failed) err where "r = (Some err, s')" "r' = Some err"
  | (passed) s where "r = (None, s)" "k s = (r', s')"
  using assms by (cases r) (auto simp: and_then_def split: option.splits)

lemma loop_Suc_cases [consumes 1, case_names pull_error sentinel row_error continue]:
  assumes "exportHelper_loop b sheet initFunc writeRowFunc (Suc fuel) rowID sheetSuffix rowIndex e = (st, e')"
  obtains (pull_error) err where
      "call_RowFunc sheet rowIndex e = (Inl err, e')" "st = Returned (Some err)"
  | (sentinel) row where
      "call_RowFunc sheet rowIndex e = (Inr row, e')" "Cells row = None" "st = Returned None"
  | (row_error) row e1 err where
      "call_RowFunc sheet rowIndex e = (Inr row, e1)" "Cells row \<noteq> None"
      "row_step b sheet initFunc writeRowFunc rowID sheetSuffix row e1 = (Some err, e')"
      "st = Returned (Some err)"
  | (continue) row e1 e3 where
      "call_RowFunc sheet rowIndex e = (Inr row, e1)" "Cells row \<noteq> None"
      "row_step b sheet initFunc writeRowFunc rowID sheetSuffix row e1 = (None, e3)"
      "exportHelper_loop b sheet initFunc writeRowFunc fuel
         (int64 ((if SheetMaxRows < rowID then 1 else rowID) + 1))
         (if SheetMaxRows < rowID then int64 (sheetSuffix + 1) else sheetSuffix)
         (int64 (rowIndex + 1)) e3 = (st, e')"
proof -
  obtain res e1 where p: "call_RowFunc sheet rowIndex e = (res, e1)"
    by force
  show thesis
  proof (cases res)
    case (Inl err)
    then show thesis
      using assms p pull_error by (simp add: exportHelper_loop.simps)
  next
    case (Inr row)
    show thesis
    proof (cases "Cells row = None")
      case True
      then show thesis
        using assms p Inr sentinel by (simp add: exportHelper_loop.simps)
    next
      case False
      obtain r3 e3 where body:
        "row_step b sheet initFunc writeRowFunc rowID sheetSuffix row e1 = (r3, e3)"
        by force
      show thesis
      proof (cases r3)
        case None
        then show thesis
          using assms p Inr False body continue [of row e1 e3]
          by (cases "SheetMaxRows < rowID") (simp_all add: exportHelper_loop.simps Let_def row_step_def)
      next
        case (Some err)
        then show thesis
          using assms p Inr False body row_error [of row e1 err]
          by (cases "SheetMaxRows < rowID") (simp_all add: exportHelper_loop.simps Let_def row_step_def)
      qed
    qed
  qed
qed

lemma exportHelper_cases [consumes 1, case_names init_error started]:
  assumes "exportHelper b sheet initFunc writeRowFunc fuel e = (st, e')"
  obtains (init_error) err where
      "initFunc (Name sheet) (e\<lparr>CurrentSheet := Name sheet\<rparr>) = (Some err, e')" "st = Returned (Some err)"
  | (started) e1 where
      "initFunc (Name sheet) (e\<lparr>CurrentSheet := Name sheet\<rparr>) = (None, e1)"
      "exportHelper_loop b sheet initFunc writeRowFunc fuel 1 0 0 e1 = (st, e')"
  using assms by (auto simp: exportHelper_def Let_def split: prod.splits option.splits)

lemma exportUsingStreamWriter_cases [consumes 1, case_names helper_stopped nil_stream flushed]:
  assumes "exportUsingStreamWriter b fuel sheet e = (st, e')"
  obtains (helper_stopped)
      "exportHelper b sheet (stream_initFunc b sheet) (stream_writeRowFunc b) fuel e = (st, e')"
      "st \<noteq> Returned None"
  | (nil_stream)
      "exportHelper b sheet (stream_initFunc b sheet) (stream_writeRowFunc b) fuel e = (Returned None, e')"
      "StreamWriter e' = None" "st = Returned (Some NilPointerDereference)"
  | (flushed) e1 sw r where
      "exportHelper b sheet (stream_initFunc b sheet) (stream_writeRowFunc b) fuel e = (Returned None, e1)"
      "StreamWriter e1 = Some sw" "invoke b (Stream_Flush sw) e1 = (r, e')" "st = Returned r"
  using assms
  by (auto simp: exportUsingStreamWriter_def split: prod.splits option.splits status.splits)

lemma Export_loop_cases [consumes 1, case_names create_error sheet_stopped next_sheet]:
  assumes "Export_loop b fuel i (sheet # rest) e = (st, e')"
  obtains (create_error) err where
      "and_then (wrap_err ''failed to create a new sheet'' (invoke b (File_NewSheet (Name sheet)) e))
         (delete_default_sheet b i) = (Some err, e')"
      "st = Returned (Some err)"
  | (sheet_stopped) e1 where
      "and_then (wrap_err ''failed to create a new sheet'' (invoke b (File_NewSheet (Name sheet)) e))
         (delete_default_sheet b i) = (None, e1)"
      "(if UseStreamWriter e1 then exportUsingStreamWriter b fuel sheet e1
        else exportUsingMemory b fuel sheet e1) = (st, e')"
      "st \<noteq> Returned None"
  | (next_sheet) e1 e2 where
      "and_then (wrap_err ''failed to create a new sheet'' (invoke b (File_NewSheet (Name sheet)) e))
         (delete_default_sheet b i) = (None, e1)"
      "(if UseStreamWriter e1 then exportUsingStreamWriter b fuel sheet e1
        else exportUsingMemory b fuel sheet e1) = (Returned None, e2)"
      "Export_loop b fuel (i + 1) rest e2 = (st, e')"
  using assms
  by (auto split: prod.splits option.splits status.splits if_splits)

lemma Export_cases [consumes 1, case_names out_of_fuel failed saved]:
  assumes "Export b fuel sheets e = (st, e')"
  obtains (out_of_fuel) "Export_loop b fuel 0 sheets e = (OutOfFuel, e')" "st = OutOfFuel"
  | (failed) err e1 where
      "Export_loop b fuel 0 sheets e = (Returned (Some err), e1)" "st = Returned (Some err)"
      "e' = snd (invoke b File_Close e1)"
  | (saved) e1 r e2 where
      "Export_loop b fuel 0 sheets e = (Returned None, e1)"
      "invoke b (File_SaveAs (FileName e1)) e1 = (r, e2)" "st = Returned r"
      "e' = snd (invoke b File_Close e2)"
  using assms
  by (auto simp: Export_def split: prod.splits option.splits status.splits)

lemma call_RowFunc_eq:
  "call_RowFunc sheet i e = (res, e1) \<Longrightarrow>
   RowFunc sheet (File e) i = res \<and>
   e1 = e\<lparr>File := File e @ [(RowFunc_call i, case res of Inl err \<Rightarrow> Some err | Inr row \<Rightarrow> None)]\<rparr>"
  by (auto simp: call_RowFunc_def Let_def)

section \<open>Which calls a run makes\<close>

lemma grows_refl [simp]: "grows P e e"
  by (simp add: grows_def)

lemma grows_trans: "grows P e e1 \<Longrightarrow> grows P e1 e2 \<Longrightarrow> grows P e e2"
  by (auto simp: grows_def)

lemma grows_mono: "grows P e e' \<Longrightarrow> (\<And>c. P c \<Longrightarrow> Q c) \<Longrightarrow> grows Q e e'"
  by (auto simp: grows_def list_all_iff)

lemma grows_File_update:
  "grows P e (e\<lparr>File := File e @ evs\<rparr>) = list_all (\<lambda>x. P (fst x)) evs"
  by (simp add: grows_def)

lemma grows_CurrentSheet [simp]:
  "grows P (e\<lparr>CurrentSheet := s\<rparr>) e' = grows P e e'"
  "grows P e (e'\<lparr>CurrentSheet := s\<rparr>) = grows P e e'"
  by (simp_all add: grows_def)

lemma grows_StreamWriter [simp]:
  "grows P e (e'\<lparr>StreamWriter := w\<rparr>) = grows P e e'"
  by (simp add: grows_def)

lemma grows_invoke: "P c \<Longrightarrow> grows P e (snd (invoke b c e))"
  by (simp add: invoke_eq grows_def)

lemma grows_and_then:
  assumes "grows P e (snd r)" and "\<And>s. grows P s (snd (k s))"
  shows "grows P e (snd (and_then r k))"
proof (cases r)
  case (Pair x s)
  then show ?thesis
    using assms grows_trans [of P e s "snd (k s)"] by (cases x) auto
qed

lemma snd_wrap_err [simp]: "snd (wrap_err msg r) = snd r"
  by (cases r) (auto simp: wrap_err_def split: option.splits)

lemma grows_perform: "list_all P cs \<Longrightarrow> grows P e (snd (perform b cs e))"
proof (induction cs arbitrary: e)
  case Nil
  show ?case by simp
next
  case (Cons c cs)
  then show ?case
    by (auto intro!: grows_and_then grows_invoke)
qed

lemma grows_call_InitFunc: "P (InitFunc_call (CurrentSheet e)) \<Longrightarrow> grows P e (snd (call_InitFunc f e))"
  by (simp add: call_InitFunc_def Let_def grows_def)

lemma grows_call_RowFunc: "P (RowFunc_call i) \<Longrightarrow> grows P e (snd (call_RowFunc sheet i e))"
  by (simp add: call_RowFunc_def Let_def grows_def)

lemma grows_mem_initFunc: "grows callback_call e (snd (mem_initFunc sheet s e))"
  by (auto simp: mem_initFunc_def intro: grows_call_InitFunc split: option.splits)

lemma grows_NewStreamWriter: "grows callback_call e (snd (NewStreamWriter b s e))"
  by (auto simp: NewStreamWriter_def invoke_eq grows_def split: option.splits)

lemma grows_stream_initFunc: "grows callback_call e (snd (stream_initFunc b sheet s e))"
  unfolding stream_initFunc_def
  by (intro grows_and_then)
     (auto intro!: grows_invoke grows_NewStreamWriter grows_call_InitFunc split: option.splits)

lemma grows_mem_writeRowFunc: "grows callback_call e (snd (mem_writeRowFunc b s rowID row e))"
  unfolding mem_writeRowFunc_perform
  by (rule grows_perform)
     (auto simp: buffered_row_calls_def buffered_cell_calls_def list_all_iff Let_def in_set_enumerate_eq)

lemma grows_stream_writeRowFunc: "grows callback_call e (snd (stream_writeRowFunc b s rowID row e))"
proof (cases "StreamWriter e")
  case None
  then show ?thesis by (simp add: stream_writeRowFunc_def)
next
  case (Some sw)
  show ?thesis
    unfolding stream_writeRowFunc_perform [OF Some]
    by (rule grows_perform) (auto simp: stream_row_calls_def list_all_iff)
qed

lemma callback_is_helper: "callback_call c \<Longrightarrow> helper_call c"
  by (cases c) simp_all

lemma grows_new_split_sheet:
  assumes init: "\<And>s e. grows callback_call e (snd (initFunc s e))"
    and P: "\<And>c. callback_call c \<Longrightarrow> P c" "\<And>n. P (File_NewSheet n)"
  shows "grows P e (snd (new_split_sheet b sheet initFunc sfx e))"
proof -
  have "grows P s (snd (initFunc n (s\<lparr>CurrentSheet := n\<rparr>)))" for s n
    using grows_mono [OF init [of "s\<lparr>CurrentSheet := n\<rparr>" n], of P]
    by (simp add: P)
  then show ?thesis
    unfolding new_split_sheet_def Let_def
    by (intro grows_and_then) (simp_all add: grows_invoke P)
qed

lemma grows_row_step:
  assumes init: "\<And>s e. grows callback_call e (snd (initFunc s e))"
    and wr: "\<And>s r row e. grows callback_call e (snd (writeRowFunc s r row e))"
    and P: "\<And>c. callback_call c \<Longrightarrow> P c" "\<And>n. P (File_NewSheet n)"
  shows "grows P e (snd (row_step b sheet initFunc writeRowFunc rowID sfx row e))"
proof -
  have split: "grows P e (snd (if SheetMaxRows < rowID
      then new_split_sheet b sheet initFunc (int64 (sfx + 1)) e else (None, e)))"
    using grows_new_split_sheet [where P = P, OF init P] by simp
  have row: "grows P s (snd (writeRowFunc x y z s))" for s x y z
    using grows_mono [OF wr, of P] P(1) by blast
  show ?thesis
    unfolding row_step_def by (rule grows_and_then [OF split row])
qed

lemma grows_exportHelper_loop:
  assumes init: "\<And>s e. grows callback_call e (snd (initFunc s e))"
    and wr: "\<And>s r row e. grows callback_call e (snd (writeRowFunc s r row e))"
  shows "exportHelper_loop b sheet initFunc writeRowFunc fuel rowID sfx idx e = (st, e') \<Longrightarrow>
         grows helper_call e e'"
proof (induction fuel arbitrary: rowID sfx idx e)
  case 0
  then show ?case by (simp add: exportHelper_loop.simps)
next
  case (Suc fuel)
  have pull: "grows helper_call e (snd (call_RowFunc sheet idx e))"
    by (simp add: grows_call_RowFunc)
  have body: "grows helper_call e1 (snd (row_step b sheet initFunc writeRowFunc rowID sfx row e1))"
    for row e1
    by (rule grows_row_step [OF init wr]) (simp_all add: callback_is_helper)
  from Suc.prems show ?case
  proof (cases rule: loop_Suc_cases)
    case (pull_error err)
    then show ?thesis using pull by simp
  next
    case (sentinel row)
    then show ?thesis using pull by simp
  next
    case (row_error row e1 err)
    have "grows helper_call e e1" "grows helper_call e1 e'"
      using pull body [of e1 row] row_error(1,3) by simp_all
    then show ?thesis
      by (rule grows_trans)
  next
    case (continue row e1 e3)
    have "grows helper_call e e1" "grows helper_call e1 e3"
      using pull body [of e1 row] continue(1,3) by simp_all
    then have "grows helper_call e e3"
      by (rule grows_trans)
    then show ?thesis
      using Suc.IH [OF continue(4)] by (rule grows_trans)
  qed
qed

lemma grows_exportHelper:
  assumes init: "\<And>s e. grows callback_call e (snd (initFunc s e))"
    and wr: "\<And>s r row e. grows callback_call e (snd (writeRowFunc s r row e))"
    and run: "exportHelper b sheet initFunc writeRowFunc fuel e = (st, e')"
  shows "grows helper_call e e'"
  using run
proof (cases rule: exportHelper_cases)
  case (init_error err)
  then show ?thesis
    using grows_mono [OF init [of "e\<lparr>CurrentSheet := Name sheet\<rparr>" "Name sheet"], of helper_call]
    by (simp add: callback_is_helper)
next
  case (started e1)
  have "grows helper_call e e1"
    using started(1) grows_mono [OF init [of "e\<lparr>CurrentSheet := Name sheet\<rparr>" "Name sheet"], of helper_call]
    by (simp add: callback_is_helper)
  then show ?thesis
    using grows_exportHelper_loop [OF init wr started(2)] by (rule grows_trans)
qed

lemma grows_exportUsingMemory:
  "exportUsingMemory b fuel sheet e = (st, e') \<Longrightarrow> grows helper_call e e'"
  unfolding exportUsingMemory_def
  by (rule grows_exportHelper [OF grows_mem_initFunc grows_mem_writeRowFunc])

lemma grows_exportUsingStreamWriter:
  assumes "exportUsingStreamWriter b fuel sheet e = (st, e')"
  shows "grows helper_call e e'"
  using assms
proof (cases rule: exportUsingStreamWriter_cases)
  case (flushed e1 sw r)
  have "grows helper_call e e1"
    by (rule grows_exportHelper [OF grows_stream_initFunc grows_stream_writeRowFunc flushed(1)])
  moreover have "grows helper_call e1 e'"
    using grows_invoke [of helper_call "Stream_Flush sw" e1 b] flushed(3) by simp
  ultimately show ?thesis
    by (rule grows_trans)
qed (auto intro: grows_exportHelper [OF grows_stream_initFunc grows_stream_writeRowFunc])

lemma grows_strategy:
  "(if UseStreamWriter e then exportUsingStreamWriter b fuel sheet e
    else exportUsingMemory b fuel sheet e) = (st, e') \<Longrightarrow> grows helper_call e e'"
  by (auto intro: grows_exportUsingStreamWriter grows_exportUsingMemory split: if_splits)

lemma deleted_append [simp]: "deleted (h @ h') = deleted h @ deleted h'"
  by (simp add: deleted_def)

lemma deleted_helper_calls: "list_all (\<lambda>x. helper_call (fst x)) evs \<Longrightarrow> deleted evs = []"
proof (induction evs)
  case Nil
  show ?case by (simp add: deleted_def)
next
  case (Cons x evs)
  then show ?case
    by (cases "fst x") (simp_all add: deleted_def)
qed

lemma grows_deleted: "grows helper_call e e' \<Longrightarrow> deleted (File e') = deleted (File e)"
  by (auto simp: grows_def deleted_helper_calls)

lemma grows_prelude_later:
  "i \<noteq> 0 \<Longrightarrow>
   grows helper_call e
     (snd (and_then (wrap_err ''failed to create a new sheet'' (invoke b (File_NewSheet (Name sheet)) e))
             (delete_default_sheet b i)))"
  by (intro grows_and_then) (simp_all add: grows_invoke delete_default_sheet_def)

lemma grows_Export_loop_later:
  "0 < i \<Longrightarrow> Export_loop b fuel i sheets e = (st, e') \<Longrightarrow> grows helper_call e e'"
proof (induction sheets arbitrary: i e)
  case Nil
  then show ?case by simp
next
  case (Cons sheet rest)
  have pre: "grows helper_call e
     (snd (and_then (wrap_err ''failed to create a new sheet'' (invoke b (File_NewSheet (Name sheet)) e))
             (delete_default_sheet b i)))"
    using Cons.prems(1) by (intro grows_prelude_later) simp
  from Cons.prems(2) show ?case
  proof (cases rule: Export_loop_cases)
    case (create_error err)
    then show ?thesis using pre by simp
  next
    case (sheet_stopped e1)
    then show ?thesis
      using pre grows_strategy [of e1 b fuel sheet st e'] grows_trans by fastforce
  next
    case (next_sheet e1 e2)
    have "grows helper_call e e1" "grows helper_call e1 e2"
      using pre next_sheet(1) grows_strategy [OF next_sheet(2)] by simp_all
    moreover have "grows helper_call e2 e'"
      using Cons.IH [OF _ next_sheet(3)] Cons.prems(1) by simp
    ultimately show ?thesis
      using grows_trans by blast
  qed
qed

lemma grows_FileName: "grows P e e' \<Longrightarrow> FileName e' = FileName e"
  by (auto simp: grows_def)

lemma grows_helper_tail:
  "grows helper_call e e' \<Longrightarrow> \<exists>evs. File e' = File e @ evs \<and> deleted evs = [] \<and> FileName e' = FileName e"
  by (auto simp: grows_def deleted_helper_calls)

lemma Export_loop_first:
  assumes "Export_loop b fuel 0 (sheet # rest) e = (st, e1)"
  shows "\<exists>evs. File e1 =
            File e @ (File_NewSheet (Name sheet), respond b (File e) (File_NewSheet (Name sheet)))
            # (if respond b (File e) (File_NewSheet (Name sheet)) = None \<and>
                  1 < SheetCount b (File e @ [(File_NewSheet (Name sheet), None)])
               then [(File_DeleteSheet ''Sheet1'',
                      respond b (File e @ [(File_NewSheet (Name sheet), None)]) (File_DeleteSheet ''Sheet1''))]
               else [])
            @ evs
          \<and> deleted evs = [] \<and> FileName e1 = FileName e"
proof -
  let ?r = "respond b (File e) (File_NewSheet (Name sheet))"
  let ?e0 = "e\<lparr>File := File e @ [(File_NewSheet (Name sheet), ?r)]\<rparr>"
  let ?pre = "and_then (wrap_err ''failed to create a new sheet'' (invoke b (File_NewSheet (Name sheet)) e))
         (delete_default_sheet b 0)"
  let ?d = "if ?r = None \<and> 1 < SheetCount b (File e @ [(File_NewSheet (Name sheet), None)])
               then [(File_DeleteSheet ''Sheet1'',
                      respond b (File e @ [(File_NewSheet (Name sheet), None)]) (File_DeleteSheet ''Sheet1''))]
               else []"
  have pre: "File (snd ?pre) = File e @ (File_NewSheet (Name sheet), ?r) # ?d"
      "FileName (snd ?pre) = FileName e"
    by (auto simp: invoke_eq delete_default_sheet_def wrap_err_def and_then_def split: option.splits)
  from assms show ?thesis
  proof (cases rule: Export_loop_cases)
    case (create_error err)
    then show ?thesis
      using pre by (intro exI [where x = "[]"]) (simp add: deleted_def)
  next
    case (sheet_stopped e0)
    obtain evs where "File e1 = File e0 @ evs" "deleted evs = []" "FileName e1 = FileName e0"
      using grows_helper_tail [OF grows_strategy [OF sheet_stopped(2)]] by blast
    then show ?thesis
      using pre sheet_stopped(1) by (intro exI [where x = evs]) simp
  next
    case (next_sheet e0 e2)
    obtain evs where evs: "File e2 = File e0 @ evs" "deleted evs = []" "FileName e2 = FileName e0"
      using grows_helper_tail [OF grows_strategy [OF next_sheet(2)]] by blast
    obtain evs' where evs': "File e1 = File e2 @ evs'" "deleted evs' = []" "FileName e1 = FileName e2"
      using grows_helper_tail [OF grows_Export_loop_later [OF _ next_sheet(3)]] by auto
    show ?thesis
      using pre next_sheet(1) evs evs' by (intro exI [where x = "evs @ evs'"]) simp
  qed
qed

lemma Export_tail:
  assumes "Export b fuel sheets e = (st, e')"
  obtains e1 st1 tl where "Export_loop b fuel 0 sheets e = (st1, e1)" "File e' = File e1 @ tl"
    "deleted tl = []"
    "tl = [] \<or> (\<exists>rc. tl = [(File_Close, rc)]) \<or>
     (\<exists>rs rc. tl = [(File_SaveAs (FileName e1), rs), (File_Close, rc)])"
  using assms
proof (cases rule: Export_cases)
  case out_of_fuel
  then show ?thesis
    using that [of OutOfFuel e' "[]"] by (simp add: deleted_def)
next
  case (failed err e1)
  then show ?thesis
    using that [of "Returned (Some err)" e1 "[(File_Close, respond b (File e1) File_Close)]"]
    by (simp add: invoke_eq deleted_def)
next
  case (saved e1 r e2)
  then show ?thesis
    using that [of "Returned None" e1
        "[(File_SaveAs (FileName e1), r),
          (File_Close, respond b (File e1 @ [(File_SaveAs (FileName e1), r)]) File_Close)]"]
    by (auto simp add: invoke_eq deleted_def)
qed

lemma Export_calls:
  "deleted (File (snd (Export b fuel sheets e))) =
     deleted (File e) @
     (case sheets of
        [] \<Rightarrow> []
      | sheet # rest \<Rightarrow>
          if respond b (File e) (File_NewSheet (Name sheet)) = None \<and>
             1 < SheetCount b (File e @ [(File_NewSheet (Name sheet), None)])
          then [''Sheet1''] else [])
   \<and> (case sheets of
        [] \<Rightarrow>
          \<exists>rs rc. File (snd (Export b fuel sheets e)) =
                    File e @ [(File_SaveAs (FileName e), rs), (File_Close, rc)]
      | sheet # rest \<Rightarrow>
          \<exists>rn evs. File (snd (Export b fuel sheets e)) =
                     File e @ (File_NewSheet (Name sheet), rn)
                     # (if rn = None \<and> 1 < SheetCount b (File e @ [(File_NewSheet (Name sheet), None)])
                        then [(File_DeleteSheet ''Sheet1'',
                               respond b (File e @ [(File_NewSheet (Name sheet), None)])
                                 (File_DeleteSheet ''Sheet1''))]
                        else [])
                     @ evs \<and> deleted evs = [])"
proof -
  obtain st e' where run: "Export b fuel sheets e = (st, e')"
    by force
  then obtain e1 st1 tl where tl: "Export_loop b fuel 0 sheets e = (st1, e1)" "File e' = File e1 @ tl"
    "deleted tl = []"
    "tl = [] \<or> (\<exists>rc. tl = [(File_Close, rc)]) \<or>
     (\<exists>rs rc. tl = [(File_SaveAs (FileName e1), rs), (File_Close, rc)])"
    by (rule Export_tail)
  show ?thesis
  proof (cases sheets)
    case Nil
    then have "e1 = e" "st1 = Returned None"
      using tl(1) by simp_all
    then have "\<exists>rs rc. File e' = File e @ [(File_SaveAs (FileName e), rs), (File_Close, rc)]"
      using run Nil by (auto simp: Export_def invoke_eq split: prod.splits)
    then show ?thesis
      using run Nil by (auto simp: deleted_def)
  next
    case (Cons sheet rest)
    obtain evs where evs: "File e1 =
            File e @ (File_NewSheet (Name sheet), respond b (File e) (File_NewSheet (Name sheet)))
            # (if respond b (File e) (File_NewSheet (Name sheet)) = None \<and>
                  1 < SheetCount b (File e @ [(File_NewSheet (Name sheet), None)])
               then [(File_DeleteSheet ''Sheet1'',
                      respond b (File e @ [(File_NewSheet (Name sheet), None)]) (File_DeleteSheet ''Sheet1''))]
               else [])
            @ evs" "deleted evs = []"
      using Export_loop_first [OF tl(1) [unfolded Cons]] by blast
    have first: "deleted (File e') = deleted (File e) @
        (if respond b (File e) (File_NewSheet (Name sheet)) = None \<and>
             1 < SheetCount b (File e @ [(File_NewSheet (Name sheet), None)])
          then [''Sheet1''] else [])"
      using evs tl(2,3) by (simp add: deleted_def)
    have second: "\<exists>rn evs. File e' =
                     File e @ (File_NewSheet (Name sheet), rn)
                     # (if rn = None \<and> 1 < SheetCount b (File e @ [(File_NewSheet (Name sheet), None)])
                        then [(File_DeleteSheet ''Sheet1'',
                               respond b (File e @ [(File_NewSheet (Name sheet), None)])
                                 (File_DeleteSheet ''Sheet1''))]
                        else [])
                     @ evs \<and> deleted evs = []"
      using evs tl(2,3)
      by (intro exI [where x = "respond b (File e) (File_NewSheet (Name sheet))"] exI [where x = "evs @ tl"])
         simp
    show ?thesis
      using first second run Cons by simp
  qed
qed

lemma pulled_append [simp]: "pulled (h @ h') = pulled h @ pulled h'"
  by (simp add: pulled_def)

lemma pulled_Nil [simp]: "pulled [] = []"
  by (simp add: pulled_def)

lemma pulled_Cons_pull [simp]: "pulled ((RowFunc_call i, r) # h) = i # pulled h"
  by (simp add: pulled_def)

lemma pulled_callback_calls: "list_all (\<lambda>x. callback_call (fst x)) evs \<Longrightarrow> pulled evs = []"
proof (induction evs)
  case Nil
  show ?case by simp
next
  case (Cons x evs)
  then show ?case
    by (cases "fst x") (simp_all add: pulled_def)
qed

lemma sentinel_last_no_pulls:
  "pulled evs1 = [] \<Longrightarrow> sentinel_last sheet h (evs1 @ evs2) = sentinel_last sheet (h @ evs1) evs2"
proof (induction evs1 arbitrary: h)
  case Nil
  show ?case by simp
next
  case (Cons x evs1)
  then show ?case
    by (cases "fst x") (auto simp: pulled_def)
qed

lemma sentinel_last_snoc:
  "sentinel_last sheet h evs \<Longrightarrow> pulled evs' = [] \<Longrightarrow> sentinel_last sheet h (evs @ evs')"
proof (induction evs arbitrary: h)
  case Nil
  then show ?case
    using sentinel_last_no_pulls [of evs' sheet h "[]"] by simp
next
  case (Cons x evs)
  then show ?case
    by (cases "fst x") auto
qed

lemma sentinel_last_decompose:
  "sentinel_last sheet h evs \<Longrightarrow> evs = pre @ (RowFunc_call i, r) # post \<Longrightarrow>
   is_sentinel (RowFunc sheet (h @ pre) i) \<Longrightarrow> pulled post = []"
proof (induction pre arbitrary: h evs)
  case Nil
  then show ?case by auto
next
  case (Cons x pre)
  then show ?case by auto
qed

lemma pulled_no_pulls:
  "list_all (\<lambda>x. \<forall>i. fst x \<noteq> RowFunc_call i) evs \<Longrightarrow> pulled evs = []"
proof (induction evs)
  case Nil
  show ?case by simp
next
  case (Cons x evs)
  then show ?case
    by (cases "fst x") (auto simp: pulled_def)
qed

lemma row_step_pulls:
  assumes init: "\<And>s e. grows callback_call e (snd (initFunc s e))"
    and wr: "\<And>s r row e. grows callback_call e (snd (writeRowFunc s r row e))"
    and body: "row_step b sheet initFunc writeRowFunc rowID sfx row e1 = (res, e3)"
  shows "\<exists>evs. File e3 = File e1 @ evs \<and> pulled evs = []"
proof -
  have "grows (\<lambda>c. \<forall>i. c \<noteq> RowFunc_call i) e1
      (snd (row_step b sheet initFunc writeRowFunc rowID sfx row e1))"
    by (rule grows_row_step [OF init wr]) auto
  then show ?thesis
    using body by (auto simp: grows_def pulled_no_pulls)
qed

lemma loop_pulls:
  assumes init: "\<And>s e. grows callback_call e (snd (initFunc s e))"
    and wr: "\<And>s r row e. grows callback_call e (snd (writeRowFunc s r row e))"
  shows "exportHelper_loop b sheet initFunc writeRowFunc fuel rowID sfx idx e = (st, e') \<Longrightarrow>
         0 \<le> idx \<Longrightarrow> idx + int fuel < 2 ^ 63 \<Longrightarrow>
         \<exists>evs n. File e' = File e @ evs \<and> n \<le> fuel \<and>
                 pulled evs = map (\<lambda>j. idx + int j) [0..<n] \<and> sentinel_last sheet (File e) evs"
proof (induction fuel arbitrary: rowID sfx idx e)
  case 0
  then show ?case
    by (intro exI [where x = "[]"] exI [where x = 0]) (simp add: exportHelper_loop.simps)
next
  case (Suc fuel)
  have one: "[0..<Suc 0] = [0]" by simp
  from Suc.prems(1) show ?case
  proof (cases rule: loop_Suc_cases)
    case (pull_error err)
    then show ?thesis
      using call_RowFunc_eq [OF pull_error(1)]
      by (intro exI [where x = "[(RowFunc_call idx, Some err)]"] exI [where x = 1])
         (auto simp: is_sentinel_def)
  next
    case (sentinel row)
    then show ?thesis
      using call_RowFunc_eq [OF sentinel(1)]
      by (intro exI [where x = "[(RowFunc_call idx, None)]"] exI [where x = 1]) auto
  next
    case (row_error row e1 err)
    obtain evs where evs: "File e' = File e1 @ evs" "pulled evs = []"
      using row_step_pulls [OF init wr row_error(3)] by blast
    have ns: "\<not> is_sentinel (RowFunc sheet (File e) idx)"
      using call_RowFunc_eq [OF row_error(1)] row_error(2) by (auto simp: is_sentinel_def)
    show ?thesis
      using call_RowFunc_eq [OF row_error(1)] evs ns
        sentinel_last_no_pulls [of evs sheet "File e @ [(RowFunc_call idx, None)]" "[]"]
      by (intro exI [where x = "(RowFunc_call idx, None) # evs"] exI [where x = 1]) auto
  next
    case (continue row e1 e3)
    obtain evs where evs: "File e3 = File e1 @ evs" "pulled evs = []"
      using row_step_pulls [OF init wr continue(3)] by blast
    have ns: "\<not> is_sentinel (RowFunc sheet (File e) idx)"
      using call_RowFunc_eq [OF continue(1)] continue(2) by (auto simp: is_sentinel_def)
    have e1: "File e1 = File e @ [(RowFunc_call idx, None)]"
      using call_RowFunc_eq [OF continue(1)] by auto
    have next_idx: "int64 (idx + 1) = idx + 1"
      using Suc.prems(2,3) by (intro int64_id) simp_all
    obtain evs' n where rest: "File e' = File e3 @ evs'" "n \<le> fuel"
        "pulled evs' = map (\<lambda>j. idx + 1 + int j) [0..<n]" "sentinel_last sheet (File e3) evs'"
      using Suc.IH [OF continue(4) [unfolded next_idx]] Suc.prems(2,3) by auto
    have idxs: "idx # map (\<lambda>j. idx + 1 + int j) [0..<n] = map (\<lambda>j. idx + int j) [0..<Suc n]"
    proof -
      have "[0..<Suc n] = 0 # map Suc [0..<n]"
        using upt_conv_Cons [of 0 "Suc n"] map_Suc_upt [of 0 n] by simp
      then show ?thesis
        by (simp add: comp_def add.assoc add.commute [of 1] del: upt_Suc)
    qed
    have sl: "sentinel_last sheet (File e) ((RowFunc_call idx, None) # evs @ evs')"
      using ns rest(4) evs e1 sentinel_last_no_pulls [of evs sheet "File e @ [(RowFunc_call idx, None)]" evs']
      by simp
    show ?thesis
      using e1 evs rest(1,2,3) idxs sl
      by (intro exI [where x = "(RowFunc_call idx, None) # evs @ evs'"] exI [where x = "Suc n"])
         (simp del: upt_Suc)
  qed
qed

lemma helper_pulls:
  assumes init: "\<And>s e. grows callback_call e (snd (initFunc s e))"
    and wr: "\<And>s r row e. grows callback_call e (snd (writeRowFunc s r row e))"
    and run: "exportHelper b sheet initFunc writeRowFunc fuel e = (st, e')"
    and fuel: "int fuel < 2 ^ 63"
  shows "\<exists>evs n. File e' = File e @ evs \<and> n \<le> fuel \<and>
                 pulled evs = map int [0..<n] \<and> sentinel_last sheet (File e) evs"
proof -
  have first: "\<exists>evs. File e1 = File e @ evs \<and> pulled evs = []"
    if "initFunc (Name sheet) (e\<lparr>CurrentSheet := Name sheet\<rparr>) = (r, e1)" for r e1
    using init [of "e\<lparr>CurrentSheet := Name sheet\<rparr>" "Name sheet"] that
    by (auto simp: grows_def pulled_callback_calls)
  from run show ?thesis
  proof (cases rule: exportHelper_cases)
    case (init_error err)
    obtain evs where "File e' = File e @ evs" "pulled evs = []"
      using first [OF init_error(1)] by blast
    then show ?thesis
      using sentinel_last_no_pulls [of evs sheet "File e" "[]"]
      by (intro exI [where x = evs] exI [where x = 0]) simp
  next
    case (started e1)
    obtain evs where evs: "File e1 = File e @ evs" "pulled evs = []"
      using first [OF started(1)] by blast
    obtain evs' n where rest: "File e' = File e1 @ evs'" "n \<le> fuel"
        "pulled evs' = map (\<lambda>j. 0 + int j) [0..<n]" "sentinel_last sheet (File e1) evs'"
      using loop_pulls [OF init wr started(2)] fuel by auto
    show ?thesis
      using evs rest sentinel_last_no_pulls [of evs sheet "File e" evs']
      by (intro exI [where x = "evs @ evs'"] exI [where x = n]) simp
  qed
qed

lemma strategy_pulls:
  assumes run: "(if UseStreamWriter e then exportUsingStreamWriter b fuel sheet e
                 else exportUsingMemory b fuel sheet e) = (st, e')"
    and fuel: "int fuel < 2 ^ 63"
  shows "\<exists>evs n. File e' = File e @ evs \<and> n \<le> fuel \<and>
                 pulled evs = map int [0..<n] \<and> sentinel_last sheet (File e) evs"
proof (cases "UseStreamWriter e")
  case False
  then have "exportHelper b sheet (mem_initFunc sheet) (mem_writeRowFunc b) fuel e = (st, e')"
    using run by (simp add: exportUsingMemory_def)
  then show ?thesis
    by (rule helper_pulls [OF grows_mem_initFunc grows_mem_writeRowFunc _ fuel])
next
  case True
  have helper: "\<exists>evs n. File e1 = File e @ evs \<and> n \<le> fuel \<and>
                 pulled evs = map int [0..<n] \<and> sentinel_last sheet (File e) evs"
    if "exportHelper b sheet (stream_initFunc b sheet) (stream_writeRowFunc b) fuel e = (st1, e1)"
    for st1 e1
    by (rule helper_pulls [OF grows_stream_initFunc grows_stream_writeRowFunc that fuel])
  from run True have "exportUsingStreamWriter b fuel sheet e = (st, e')"
    by simp
  then show ?thesis
  proof (cases rule: exportUsingStreamWriter_cases)
    case helper_stopped
    then show ?thesis using helper by blast
  next
    case nil_stream
    then show ?thesis using helper by blast
  next
    case (flushed e1 sw r)
    obtain evs n where evs: "File e1 = File e @ evs" "n \<le> fuel" "pulled evs = map int [0..<n]"
        "sentinel_last sheet (File e) evs"
      using helper [OF flushed(1)] by blast
    have "File e' = File e1 @ [(Stream_Flush sw, r)]"
      using flushed(3) by (auto simp: invoke_eq)
    then show ?thesis
      using evs sentinel_last_snoc [OF evs(4), of "[(Stream_Flush sw, r)]"]
      by (intro exI [where x = "evs @ [(Stream_Flush sw, r)]"] exI [where x = n])
         (simp add: pulled_def)
  qed
qed

lemma Export_single_mem:
  assumes nf: "never_fails b" and hf: "hook_never_fails sheet"
    and src: "feeds sheet rowf n" and n: "int n \<le> SheetMaxRows" and fuel: "n < fuel"
    and mem: "\<not> UseStreamWriter e"
    and one: "SheetCount b (File e @ [(File_NewSheet (Name sheet), None)]) \<le> 1"
  shows "Export b fuel [sheet] e =
           (Returned None,
            e\<lparr>CurrentSheet := Name sheet,
              File := File e @ [(File_NewSheet (Name sheet), None)]
                      @ hook_entry sheet (Name sheet)
                      @ rows_log (buffered_calls b (Name sheet)) rowf 1 0 n
                      @ [(RowFunc_call (int n), None), (File_SaveAs (FileName e), None),
                         (File_Close, None)]\<rparr>)"
proof -
  let ?e1 = "e\<lparr>File := File e @ [(File_NewSheet (Name sheet), None)]\<rparr>"
  have pre: "and_then (wrap_err ''failed to create a new sheet'' (invoke b (File_NewSheet (Name sheet)) e))
         (delete_default_sheet b 0) = (None, ?e1)"
    using nf one by (simp add: invoke_eq never_fails_def delete_default_sheet_def)
  let ?e2 = "?e1\<lparr>CurrentSheet := Name sheet,
              File := File ?e1 @ hook_entry sheet (Name sheet)
                      @ rows_log (buffered_calls b (Name sheet)) rowf 1 0 n
                      @ [(RowFunc_call (int n), None)]\<rparr>"
  have strat: "exportUsingMemory b fuel sheet ?e1 = (Returned None, ?e2)"
    by (rule mem_no_split [OF nf hf src n fuel])
  have loop: "Export_loop b fuel 0 [sheet] e = (Returned None, ?e2)"
    unfolding Export_loop.simps pre using mem strat by simp
  show ?thesis
    unfolding Export_def loop using nf by (simp add: invoke_eq never_fails_def)
qed

lemma Export_single_stream:
  assumes nf: "never_fails b" and hf: "hook_never_fails sheet"
    and src: "feeds sheet rowf n" and n: "int n \<le> SheetMaxRows" and fuel: "n < fuel"
    and stream: "UseStreamWriter e"
    and one: "SheetCount b (File e @ [(File_NewSheet (Name sheet), None)]) \<le> 1"
    and h: "h = Suc (length (File e @ flush_entry (StreamWriter e)))"
  shows "Export b fuel [sheet] e =
           (Returned None,
            e\<lparr>CurrentSheet := Name sheet, StreamWriter := Some h,
              File := File e @ [(File_NewSheet (Name sheet), None)]
                      @ flush_entry (StreamWriter e) @ [(File_NewStreamWriter (Name sheet), None)]
                      @ hook_entry sheet (Name sheet)
                      @ rows_log (stream_row_calls b h) rowf 1 0 n
                      @ [(RowFunc_call (int n), None), (Stream_Flush h, None),
                         (File_SaveAs (FileName e), None), (File_Close, None)]\<rparr>)"
proof -
  let ?e1 = "e\<lparr>File := File e @ [(File_NewSheet (Name sheet), None)]\<rparr>"
  have pre: "and_then (wrap_err ''failed to create a new sheet'' (invoke b (File_NewSheet (Name sheet)) e))
         (delete_default_sheet b 0) = (None, ?e1)"
    using nf one by (simp add: invoke_eq never_fails_def delete_default_sheet_def)
  have h': "h = length (File ?e1 @ flush_entry (StreamWriter ?e1))"
    by (simp add: h)
  let ?e2 = "?e1\<lparr>CurrentSheet := Name sheet, StreamWriter := Some h,
              File := File ?e1 @ flush_entry (StreamWriter ?e1) @ [(File_NewStreamWriter (Name sheet), None)]
                      @ hook_entry sheet (Name sheet)
                      @ rows_log (stream_row_calls b h) rowf 1 0 n
                      @ [(RowFunc_call (int n), None), (Stream_Flush h, None)]\<rparr>"
  have strat: "exportUsingStreamWriter b fuel sheet ?e1 = (Returned None, ?e2)"
    by (rule stream_no_split [OF nf hf src n fuel h'])
  have loop: "Export_loop b fuel 0 [sheet] e = (Returned None, ?e2)"
    unfolding Export_loop.simps pre using stream strat by simp
  show ?thesis
    unfolding Export_def loop using nf by (simp add: invoke_eq never_fails_def)
qed

lemma workbook_double_never_fails: "never_fails workbook_double"
  by (simp add: never_fails_def workbook_double_def)

lemma example_sheet_Name: "Name (example_sheet name row n) = name"
  by (simp add: example_sheet_def)

lemma example_sheet_no_hook: "hook_entry (example_sheet name row n) s = []"
  by (simp add: hook_entry_def example_sheet_def)

section \<open>Runs on which a call fails\<close>

lemma clean_simps [simp]:
  "clean []" "clean (x # evs) = (snd x = None \<and> clean evs)" "clean (evs @ evs') = (clean evs \<and> clean evs')"
  by (auto simp: clean_def)

lemma ran_refl [simp]: "ran None e e"
  by (simp add: ran_def outcome_ok_def)

lemma ran_seq: "ran None e e1 \<Longrightarrow> ran r e1 e2 \<Longrightarrow> ran r e e2"
proof -
  assume "ran None e e1" "ran r e1 e2"
  then obtain evs evs' where evs: "File e1 = File e @ evs" "clean evs"
      "File e2 = File e1 @ evs'" "outcome_ok r evs'"
    by (auto simp: ran_def outcome_ok_def)
  have "outcome_ok r (evs @ evs')"
  proof (cases r)
    case None
    then show ?thesis using evs by (simp add: outcome_ok_def)
  next
    case (Some err')
    then obtain pre c err where "evs' = pre @ [(c, Some err)]" "clean pre"
        "err' = err \<or> (\<exists>msg. err' = Errorf msg err)"
      using evs(4) by (auto simp: outcome_ok_def failed_with_def)
    then have "evs @ evs' = (evs @ pre) @ [(c, Some err)] \<and> clean (evs @ pre) \<and>
        (err' = err \<or> (\<exists>msg. err' = Errorf msg err))"
      using evs(2) by simp
    then show ?thesis
      unfolding Some outcome_ok_def failed_with_def by (simp only: option.case) blast
  qed
  then show ?thesis
    using evs by (auto simp: ran_def)
qed

lemma ran_fields [simp]:
  "ran r e (e'\<lparr>CurrentSheet := s\<rparr>) = ran r e e'"
  "ran r (e\<lparr>CurrentSheet := s\<rparr>) e' = ran r e e'"
  "ran r e (e'\<lparr>StreamWriter := w\<rparr>) = ran r e e'"
  by (simp_all add: ran_def)

lemma ran_single: "ran r e (e\<lparr>File := File e @ [(c, r)]\<rparr>)"
proof (cases r)
  case None
  then show ?thesis by (simp add: ran_def outcome_ok_def)
next
  case (Some err)
  have "failed_with err [(c, Some err)]"
    unfolding failed_with_def by (intro exI [where x = "[]"] exI [where x = c] exI [where x = err]) simp
  then show ?thesis
    using Some by (simp add: ran_def outcome_ok_def)
qed

lemma ran_invoke: "invoke b c e = (r, e') \<Longrightarrow> ran r e e'"
  using ran_single [of "respond b (File e) c" e c] by (auto simp: invoke_eq)

lemma ran_wrap_invoke: "wrap_err msg (invoke b c e) = (r, e') \<Longrightarrow> ran r e e'"
proof (cases "respond b (File e) c")
  case None
  assume "wrap_err msg (invoke b c e) = (r, e')"
  then show ?thesis
    using None by (auto simp: invoke_eq ran_def outcome_ok_def)
next
  case (Some err)
  assume "wrap_err msg (invoke b c e) = (r, e')"
  then have r: "r = Some (Errorf msg err)" and e': "e' = e\<lparr>File := File e @ [(c, Some err)]\<rparr>"
    using Some by (auto simp: invoke_eq)
  have "failed_with (Errorf msg err) [(c, Some err)]"
    unfolding failed_with_def by (intro exI [where x = "[]"] exI [where x = c] exI [where x = err]) simp
  then show ?thesis
    using r e' by (simp add: ran_def outcome_ok_def)
qed

lemma ran_call_InitFunc: "call_InitFunc f e = (r, e') \<Longrightarrow> ran r e e'"
  using ran_single [of "f e" e "InitFunc_call (CurrentSheet e)"]
  by (auto simp: call_InitFunc_def Let_def)

lemma ran_call_RowFunc:
  "call_RowFunc sheet i e = (res, e') \<Longrightarrow> ran (case res of Inl err \<Rightarrow> Some err | Inr row \<Rightarrow> None) e e'"
  using ran_single [of "case RowFunc sheet (File e) i of Inl err \<Rightarrow> Some err | Inr row \<Rightarrow> None" e
      "RowFunc_call i"]
  by (auto simp: call_RowFunc_def Let_def)

lemma ran_and_then:
  assumes "and_then r0 k = (r, e')" and "ran (fst r0) e (snd r0)"
    and "\<And>s r' s'. k s = (r', s') \<Longrightarrow> ran r' s s'"
  shows "ran r e e'"
  using assms(1)
proof (cases rule: and_then_cases)
  case (failed err)
  then show ?thesis using assms(2) by simp
next
  case (passed s)
  then show ?thesis
    using assms(2) assms(3) [OF passed(2)] ran_seq [of e s r e'] by simp
qed

lemma ran_perform: "perform b cs e = (r, e') \<Longrightarrow> ran r e e'"
proof (induction cs arbitrary: e r e')
  case Nil
  then show ?case by simp
next
  case (Cons c cs)
  obtain r0 e0 where inv: "invoke b c e = (r0, e0)"
    by force
  show ?case
  proof (rule ran_and_then [of "invoke b c e" "perform b cs"])
    show "and_then (invoke b c e) (perform b cs) = (r, e')"
      using Cons.prems by simp
    show "ran (fst (invoke b c e)) e (snd (invoke b c e))"
      using ran_invoke [OF inv] inv by simp
    show "ran r' s s'" if "perform b cs s = (r', s')" for s r' s'
      using Cons.IH [OF that] .
  qed
qed

lemma ran_mem_writeRowFunc: "mem_writeRowFunc b s rowID row e = (r, e') \<Longrightarrow> ran r e e'"
  unfolding mem_writeRowFunc_perform by (rule ran_perform)

lemma perform_StreamWriter: "perform b cs e = (r, e') \<Longrightarrow> StreamWriter e' = StreamWriter e"
proof (induction cs arbitrary: e r e')
  case Nil
  then show ?case by simp
next
  case (Cons c cs)
  from Cons.prems have "and_then (invoke b c e) (perform b cs) = (r, e')"
    by simp
  then show ?case
  proof (cases rule: and_then_cases)
    case (failed err)
    then show ?thesis by (auto simp: invoke_eq)
  next
    case (passed s)
    then show ?thesis
      using Cons.IH [OF passed(2)] by (auto simp: invoke_eq)
  qed
qed

lemma ran_stream_writeRowFunc:
  assumes "StreamWriter e \<noteq> None" and run: "stream_writeRowFunc b s rowID row e = (r, e')"
  shows "ran r e e'" and "StreamWriter e' = StreamWriter e"
proof -
  obtain sw where sw: "StreamWriter e = Some sw"
    using assms(1) by auto
  have "perform b (stream_row_calls b sw rowID row) e = (r, e')"
    using run unfolding stream_writeRowFunc_perform [OF sw] .
  then show "ran r e e'" and "StreamWriter e' = StreamWriter e"
    by (rule ran_perform, rule perform_StreamWriter)
qed

lemma ran_mem_initFunc: "mem_initFunc sheet s e = (r, e') \<Longrightarrow> ran r e e'"
  by (auto simp: mem_initFunc_def intro: ran_call_InitFunc split: option.splits)

lemma ran_NewStreamWriter:
  assumes "NewStreamWriter b s e = (r, e')"
  shows "ran r e e'" and "r = None \<Longrightarrow> StreamWriter e' \<noteq> None"
proof -
  obtain r0 e0 where inv: "invoke b (File_NewStreamWriter s) e = (r0, e0)"
    by force
  then have "ran r0 e e0"
    by (rule ran_invoke)
  then show "ran r e e'" and "r = None \<Longrightarrow> StreamWriter e' \<noteq> None"
    using assms inv by (auto simp: NewStreamWriter_def split: option.splits)
qed

lemma call_InitFunc_StreamWriter: "call_InitFunc f e = (r, e') \<Longrightarrow> StreamWriter e' = StreamWriter e"
  by (auto simp: call_InitFunc_def Let_def)

lemma ran_stream_initFunc:
  assumes "stream_initFunc b sheet s e = (r, e')"
  shows "ran r e e' \<and> (r = None \<longrightarrow> StreamWriter e' \<noteq> None)"
proof -
  let ?flush = "case StreamWriter e of None \<Rightarrow> (None, e) | Some sw \<Rightarrow> invoke b (Stream_Flush sw) e"
  let ?rest = "\<lambda>e1. and_then (NewStreamWriter b s e1)
         (\<lambda>e2. case InitFunc sheet of None \<Rightarrow> (None, e2) | Some f \<Rightarrow> call_InitFunc f e2)"
  have flush: "ran (fst ?flush) e (snd ?flush)"
    by (cases "StreamWriter e") (auto intro: ran_invoke [OF prod.collapse [symmetric]])
  have hook: "ran r2 e2 e3 \<and> StreamWriter e3 = StreamWriter e2"
    if "(case InitFunc sheet of None \<Rightarrow> (None, e2) | Some f \<Rightarrow> call_InitFunc f e2) = (r2, e3)"
    for e2 r2 e3
    using that by (auto split: option.splits intro: ran_call_InitFunc dest: call_InitFunc_StreamWriter)
  have rest: "ran r1 e1 e2 \<and> (r1 = None \<longrightarrow> StreamWriter e2 \<noteq> None)" if "?rest e1 = (r1, e2)" for e1 r1 e2
    using that
  proof (cases rule: and_then_cases)
    case (failed err)
    then show ?thesis
      using ran_NewStreamWriter(1) [of b s e1 "Some err" e2] by simp
  next
    case (passed e15)
    then show ?thesis
      using ran_NewStreamWriter [OF passed(1)] hook [OF passed(2)] ran_seq [of e1 e15 r1 e2] by simp
  qed
  from assms have "and_then ?flush ?rest = (r, e')"
    by (simp add: stream_initFunc_def)
  then show ?thesis
  proof (cases rule: and_then_cases)
    case (failed err)
    then show ?thesis using flush by simp
  next
    case (passed e1)
    then show ?thesis
      using flush rest [OF passed(2)] ran_seq [of e e1 r e'] by simp
  qed
qed

lemma error_of_simps [simp]: "error_of OutOfFuel = None" "error_of (Returned r) = r"
  by (simp_all add: error_of_def)

lemma loop_rule:
  fixes R :: "error option \<Rightarrow> ('v, 'o) Exporter \<Rightarrow> ('v, 'o) Exporter \<Rightarrow> bool"
  assumes refl: "\<And>e. R None e e"
    and seq: "\<And>e e1 e2 r. R None e e1 \<Longrightarrow> R r e1 e2 \<Longrightarrow> R r e e2"
    and pull: "\<And>i e res e1. I e \<Longrightarrow> call_RowFunc sheet i e = (res, e1) \<Longrightarrow>
                R (case res of Inl err \<Rightarrow> Some err | Inr row \<Rightarrow> None) e e1 \<and> I e1"
    and step: "\<And>rowID sfx row e r e1. I e \<Longrightarrow>
                row_step b sheet initFunc writeRowFunc rowID sfx row e = (r, e1) \<Longrightarrow>
                R r e e1 \<and> (r = None \<longrightarrow> I e1)"
  shows "exportHelper_loop b sheet initFunc writeRowFunc fuel rowID sfx idx e = (st, e') \<Longrightarrow> I e \<Longrightarrow>
         R (error_of st) e e' \<and> (st = Returned None \<longrightarrow> I e')"
proof (induction fuel arbitrary: rowID sfx idx e)
  case 0
  then show ?case
    using refl by (simp add: exportHelper_loop.simps)
next
  case (Suc fuel)
  from Suc.prems(1) show ?case
  proof (cases rule: loop_Suc_cases)
    case (pull_error err)
    then show ?thesis
      using pull [OF Suc.prems(2) pull_error(1)] by simp
  next
    case (sentinel row)
    then show ?thesis
      using pull [OF Suc.prems(2) sentinel(1)] by simp
  next
    case (row_error row e1 err)
    have p: "R None e e1" "I e1"
      using pull [OF Suc.prems(2) row_error(1)] by simp_all
    show ?thesis
      using seq [OF p(1)] step [OF p(2) row_error(3)] row_error(4) by simp
  next
    case (continue row e1 e3)
    have p: "R None e e1" "I e1"
      using pull [OF Suc.prems(2) continue(1)] by simp_all
    have s: "R None e1 e3" "I e3"
      using step [OF p(2) continue(3)] by simp_all
    have "R None e e3"
      using seq [OF p(1) s(1)] .
    then show ?thesis
      using Suc.IH [OF continue(4) s(2)] seq by blast
  qed
qed

lemma helper_rule:
  fixes R :: "error option \<Rightarrow> ('v, 'o) Exporter \<Rightarrow> ('v, 'o) Exporter \<Rightarrow> bool"
  assumes refl: "\<And>e. R None e e"
    and seq: "\<And>e e1 e2 r. R None e e1 \<Longrightarrow> R r e1 e2 \<Longrightarrow> R r e e2"
    and pull: "\<And>i e res e1. I e \<Longrightarrow> call_RowFunc sheet i e = (res, e1) \<Longrightarrow>
                R (case res of Inl err \<Rightarrow> Some err | Inr row \<Rightarrow> None) e e1 \<and> I e1"
    and step: "\<And>rowID sfx row e r e1. I e \<Longrightarrow>
                row_step b sheet initFunc writeRowFunc rowID sfx row e = (r, e1) \<Longrightarrow>
                R r e e1 \<and> (r = None \<longrightarrow> I e1)"
    and init: "\<And>r e1. initFunc (Name sheet) (e\<lparr>CurrentSheet := Name sheet\<rparr>) = (r, e1) \<Longrightarrow>
                R r e e1 \<and> (r = None \<longrightarrow> I e1)"
    and run: "exportHelper b sheet initFunc writeRowFunc fuel e = (st, e')"
  shows "R (error_of st) e e' \<and> (st = Returned None \<longrightarrow> I e')"
  using run
proof (cases rule: exportHelper_cases)
  case (init_error err)
  then show ?thesis
    using init [OF init_error(1)] by simp
next
  case (started e1)
  have i: "R None e e1" "I e1"
    using init [OF started(1)] by simp_all
  have "R (error_of st) e1 e' \<and> (st = Returned None \<longrightarrow> I e')"
    by (rule loop_rule [where R = R and I = I, OF _ _ _ _ started(2) i(2)])
       (fact refl, erule (1) seq, erule (1) pull, erule (1) step)
  then show ?thesis
    using seq [OF i(1)] by blast
qed

lemma ran_new_split_sheet:
  assumes init: "\<And>s e r e1. initFunc s e = (r, e1) \<Longrightarrow> ran r e e1 \<and> (r = None \<longrightarrow> I e1)"
    and run: "new_split_sheet b sheet initFunc sfx e = (r, e1)"
  shows "ran r e e1 \<and> (r = None \<longrightarrow> I e1)"
proof -
  let ?name = "Sprintf_s_d (Name sheet) sfx"
  from run have "and_then (wrap_err ''failed to create a new sheet'' (invoke b (File_NewSheet ?name) e))
      (\<lambda>e1. initFunc ?name (e1\<lparr>CurrentSheet := ?name\<rparr>)) = (r, e1)"
    by (simp add: new_split_sheet_def Let_def)
  then show ?thesis
  proof (cases rule: and_then_cases)
    case (failed err)
    then show ?thesis
      using ran_wrap_invoke [of "''failed to create a new sheet''" b "File_NewSheet ?name" e "Some err" e1]
      by simp
  next
    case (passed e0)
    have "ran None e e0"
      using ran_wrap_invoke [OF passed(1)] .
    moreover have "ran r e0 e1 \<and> (r = None \<longrightarrow> I e1)"
      using init [OF passed(2)] by simp
    ultimately show ?thesis
      using ran_seq by blast
  qed
qed

lemma ran_row_step:
  assumes init: "\<And>s e r e1. initFunc s e = (r, e1) \<Longrightarrow> ran r e e1 \<and> (r = None \<longrightarrow> I e1)"
    and wr: "\<And>s rid row e r e1. I e \<Longrightarrow> writeRowFunc s rid row e = (r, e1) \<Longrightarrow>
               ran r e e1 \<and> (r = None \<longrightarrow> I e1)"
    and I: "I e"
    and run: "row_step b sheet initFunc writeRowFunc rowID sfx row e = (r, e1)"
  shows "ran r e e1 \<and> (r = None \<longrightarrow> I e1)"
  using run [unfolded row_step_def]
proof (cases rule: and_then_cases)
  case (failed err)
  then show ?thesis
    using ran_new_split_sheet [of initFunc I b sheet "int64 (sfx + 1)" e "Some err" e1] init
    by (auto split: if_splits)
next
  case (passed e0)
  have "ran None e e0 \<and> I e0"
  proof (cases "SheetMaxRows < rowID")
    case True
    then show ?thesis
      using passed(1) ran_new_split_sheet [of initFunc I b sheet "int64 (sfx + 1)" e None e0] init
      by simp
  next
    case False
    then show ?thesis
      using passed(1) I by simp
  qed
  then show ?thesis
    using wr [OF _ passed(2)] ran_seq by blast
qed

lemma ran_pull:
  "call_RowFunc sheet i e = (res, e1) \<Longrightarrow>
   ran (case res of Inl err \<Rightarrow> Some err | Inr row \<Rightarrow> None) e e1 \<and> StreamWriter e1 = StreamWriter e"
  using ran_call_RowFunc [of sheet i e res e1] by (auto simp: call_RowFunc_def Let_def)

lemma ran_exportUsingMemory:
  assumes "exportUsingMemory b fuel sheet e = (st, e')"
  shows "ran (error_of st) e e'"
proof -
  have "ran (error_of st) e e' \<and> (st = Returned None \<longrightarrow> True)"
  proof (rule helper_rule [where R = ran and I = "\<lambda>e. True" and initFunc = "mem_initFunc sheet"
        and writeRowFunc = "mem_writeRowFunc b" and b = b and sheet = sheet and fuel = fuel])
    show "exportHelper b sheet (mem_initFunc sheet) (mem_writeRowFunc b) fuel e = (st, e')"
      using assms by (simp add: exportUsingMemory_def)
    show "ran r e0 e1 \<and> (r = None \<longrightarrow> True)"
      if "True" "row_step b sheet (mem_initFunc sheet) (mem_writeRowFunc b) rowID sfx row e0 = (r, e1)"
      for rowID sfx row e0 r e1
      by (rule ran_row_step [where I = "\<lambda>e. True", OF _ _ _ that(2)])
         (auto intro: ran_mem_initFunc ran_mem_writeRowFunc)
    show "ran r e e1 \<and> (r = None \<longrightarrow> True)"
      if "mem_initFunc sheet (Name sheet) (e\<lparr>CurrentSheet := Name sheet\<rparr>) = (r, e1)" for r e1
      using ran_mem_initFunc [OF that] by simp
  qed (auto intro: ran_seq dest: ran_pull)
  then show ?thesis by simp
qed

lemma ran_stream_helper:
  assumes "exportHelper b sheet (stream_initFunc b sheet) (stream_writeRowFunc b) fuel e = (st, e')"
  shows "ran (error_of st) e e' \<and> (st = Returned None \<longrightarrow> StreamWriter e' \<noteq> None)"
proof (rule helper_rule [where R = ran and I = "\<lambda>e. StreamWriter e \<noteq> None"
      and initFunc = "stream_initFunc b sheet" and writeRowFunc = "stream_writeRowFunc b"
      and b = b and sheet = sheet and fuel = fuel])
  show "exportHelper b sheet (stream_initFunc b sheet) (stream_writeRowFunc b) fuel e = (st, e')"
    by (rule assms)
  show "ran r e0 e1 \<and> (r = None \<longrightarrow> StreamWriter e1 \<noteq> None)"
    if "StreamWriter e0 \<noteq> None"
      "row_step b sheet (stream_initFunc b sheet) (stream_writeRowFunc b) rowID sfx row e0 = (r, e1)"
    for rowID sfx row e0 r e1
  proof (rule ran_row_step [where I = "\<lambda>e. StreamWriter e \<noteq> None", OF _ _ that])
    show "ran r e e1 \<and> (r = None \<longrightarrow> StreamWriter e1 \<noteq> None)"
      if "stream_initFunc b sheet s e = (r, e1)" for s e r e1
      using ran_stream_initFunc [OF that] .
    show "ran r e e1 \<and> (r = None \<longrightarrow> StreamWriter e1 \<noteq> None)"
      if "StreamWriter e \<noteq> None" "stream_writeRowFunc b s rid row e = (r, e1)" for s rid row e r e1
      using ran_stream_writeRowFunc [OF that] that(1) by simp
  qed
  show "ran r e e1 \<and> (r = None \<longrightarrow> StreamWriter e1 \<noteq> None)"
    if "stream_initFunc b sheet (Name sheet) (e\<lparr>CurrentSheet := Name sheet\<rparr>) = (r, e1)" for r e1
    using ran_stream_initFunc [OF that] by simp
  show "ran (case res of Inl err \<Rightarrow> Some err | Inr row \<Rightarrow> None) e0 e1 \<and> StreamWriter e1 \<noteq> None"
    if "StreamWriter e0 \<noteq> None" "call_RowFunc sheet i e0 = (res, e1)" for i e0 res e1
    using ran_pull [OF that(2)] that(1) by simp
qed (auto intro: ran_seq)

lemma ran_exportUsingStreamWriter:
  assumes "exportUsingStreamWriter b fuel sheet e = (st, e')"
  shows "ran (error_of st) e e'"
  using assms
proof (cases rule: exportUsingStreamWriter_cases)
  case helper_stopped
  then show ?thesis
    using ran_stream_helper by blast
next
  case nil_stream
  then show ?thesis
    using ran_stream_helper [OF nil_stream(1)] by simp
next
  case (flushed e1 sw r)
  have "ran None e e1"
    using ran_stream_helper [OF flushed(1)] by simp
  then show ?thesis
    using ran_invoke [OF flushed(3)] flushed(4) ran_seq by fastforce
qed

lemma ran_strategy:
  "(if UseStreamWriter e then exportUsingStreamWriter b fuel sheet e
    else exportUsingMemory b fuel sheet e) = (st, e') \<Longrightarrow> ran (error_of st) e e'"
  by (auto intro: ran_exportUsingStreamWriter ran_exportUsingMemory split: if_splits)

lemma ran_prelude:
  assumes "and_then (wrap_err ''failed to create a new sheet'' (invoke b (File_NewSheet n) e))
             (delete_default_sheet b i) = (r, e')"
  shows "ran r e e'"
  using assms
proof (cases rule: and_then_cases)
  case (failed err)
  then show ?thesis
    using ran_wrap_invoke [of "''failed to create a new sheet''" b "File_NewSheet n" e "Some err" e']
    by simp
next
  case (passed e0)
  have "ran None e e0"
    using ran_wrap_invoke [OF passed(1)] .
  moreover have "ran r e0 e'"
    using passed(2) ran_wrap_invoke [of "''failed to delete default sheet''" b
        "File_DeleteSheet ''Sheet1''" e0 r e']
    by (auto simp: delete_default_sheet_def split: if_splits)
  ultimately show ?thesis
    by (rule ran_seq)
qed

lemma ran_Export_loop:
  "Export_loop b fuel i sheets e = (st, e') \<Longrightarrow> ran (error_of st) e e'"
proof (induction sheets arbitrary: i e)
  case Nil
  then show ?case by auto
next
  case (Cons sheet rest)
  from Cons.prems show ?case
  proof (cases rule: Export_loop_cases)
    case (create_error err)
    then show ?thesis
      using ran_prelude by fastforce
  next
    case (sheet_stopped e1)
    then show ?thesis
      using ran_prelude [OF sheet_stopped(1)] ran_strategy [OF sheet_stopped(2)] ran_seq by blast
  next
    case (next_sheet e1 e2)
    have "ran None e e2"
      using ran_prelude [OF next_sheet(1)] ran_strategy [OF next_sheet(2)] ran_seq by fastforce
    then show ?thesis
      using Cons.IH [OF next_sheet(3)] ran_seq by blast
  qed
qed

lemma picky_run:
  "Export picky_backend 2 [example_sheet ''data'' example_row 1, example_sheet ''bad:name'' example_row 1]
     (New ''out.xlsx'' False) =
   (Returned (Some (Errorf ''failed to create a new sheet'' (Error ''invalid sheet name''))),
    \<lparr>File = [(File_NewSheet ''data'', None), (RowFunc_call 0, None),
             (File_SetCellValue ''data'' ''1,1'' 7, None), (RowFunc_call 1, None),
             (File_NewSheet ''bad:name'', Some (Error ''invalid sheet name'')), (File_Close, None)],
     FileName = ''out.xlsx'', CurrentSheet = ''data'', UseStreamWriter = False, StreamWriter = None\<rparr>)"
  by (simp add: Export_def exportUsingMemory_def exportHelper_def exportHelper_loop.simps numeral_2_eq_2
        call_RowFunc_def mem_initFunc_def mem_writeRowFunc_def mem_cell_def invoke_eq
        delete_default_sheet_def picky_backend_def example_sheet_def example_row_def New_def
        Row_zero_def Let_def SheetMaxRows_def int64_def decimal.simps digit_char_def)

section \<open>The flush discipline\<close>

lemma flushed_before_switch_mono:
  "flushed_before_switch k w False evs \<Longrightarrow> flushed_before_switch k w fl evs"
  by (cases evs) (auto split: call.splits)

lemma writer_after_append:
  "writer_after k w (evs @ evs') = writer_after (k + length evs) (writer_after k w evs) evs'"
  by (induction evs arbitrary: k w) simp_all

lemma flushed_before_switch_append:
  "flushed_before_switch k w fl evs \<Longrightarrow>
   flushed_before_switch (k + length evs) (writer_after k w evs) False evs' \<Longrightarrow>
   flushed_before_switch k w fl (evs @ evs')"
proof (induction evs arbitrary: k w fl)
  case Nil
  then show ?case by (simp add: flushed_before_switch_mono)
next
  case (Cons x evs)
  then show ?case
    by (cases "fst x") simp_all
qed

lemma tracks_refl [simp]: "tracks e e"
  by (simp add: tracks_def)

lemma tracks_trans: "tracks e e1 \<Longrightarrow> tracks e1 e2 \<Longrightarrow> tracks e e2"
proof -
  assume "tracks e e1" "tracks e1 e2"
  then obtain evs evs' where evs: "File e1 = File e @ evs"
      "StreamWriter e1 = writer_after (length (File e)) (StreamWriter e) evs"
      "flushed_before_switch (length (File e)) (StreamWriter e) False evs"
      "File e2 = File e1 @ evs'"
      "StreamWriter e2 = writer_after (length (File e1)) (StreamWriter e1) evs'"
      "flushed_before_switch (length (File e1)) (StreamWriter e1) False evs'"
    unfolding tracks_def by blast
  have "File e2 = File e @ (evs @ evs')"
    using evs by simp
  moreover have "StreamWriter e2 = writer_after (length (File e)) (StreamWriter e) (evs @ evs')"
    using evs by (simp add: writer_after_append)
  moreover have "flushed_before_switch (length (File e)) (StreamWriter e) False (evs @ evs')"
    using evs by (intro flushed_before_switch_append) simp_all
  ultimately show ?thesis
    unfolding tracks_def by blast
qed

lemma tracks_CurrentSheet [simp]:
  "tracks e (e'\<lparr>CurrentSheet := s\<rparr>) = tracks e e'"
  "tracks (e\<lparr>CurrentSheet := s\<rparr>) e' = tracks e e'"
  by (simp_all add: tracks_def)

lemma quiet_writer_after: "list_all (\<lambda>x. quiet_call (fst x)) evs \<Longrightarrow> writer_after k w evs = w"
proof (induction evs arbitrary: k)
  case Nil
  show ?case by simp
next
  case (Cons x evs)
  then show ?case by (cases "fst x") simp_all
qed

lemma quiet_flushed_before_switch:
  "list_all (\<lambda>x. quiet_call (fst x)) evs \<Longrightarrow> flushed_before_switch k w fl evs"
proof (induction evs arbitrary: k fl)
  case Nil
  show ?case by simp
next
  case (Cons x evs)
  then show ?case by (cases "fst x") simp_all
qed

lemma quiet_tracks:
  "grows quiet_call e e' \<Longrightarrow> StreamWriter e' = StreamWriter e \<Longrightarrow> tracks e e'"
  by (auto simp: grows_def tracks_def quiet_writer_after quiet_flushed_before_switch)

lemma tracks_invoke: "quiet_call c \<Longrightarrow> invoke b c e = (r, e') \<Longrightarrow> tracks e e'"
  using grows_invoke [of quiet_call c e b] by (intro quiet_tracks) (auto simp: invoke_eq)

lemma tracks_perform:
  assumes "list_all quiet_call cs" and "perform b cs e = (r, e')"
  shows "tracks e e'"
  using grows_perform [OF assms(1), of e b] perform_StreamWriter [OF assms(2)] assms(2)
  by (intro quiet_tracks) simp_all

lemma tracks_mem_writeRowFunc: "mem_writeRowFunc b s rowID row e = (r, e') \<Longrightarrow> tracks e e'"
  unfolding mem_writeRowFunc_perform
  by (rule tracks_perform [rotated])
     (auto simp: buffered_row_calls_def buffered_cell_calls_def list_all_iff Let_def)

lemma tracks_stream_writeRowFunc: "stream_writeRowFunc b s rowID row e = (r, e') \<Longrightarrow> tracks e e'"
proof (cases "StreamWriter e")
  case None
  assume "stream_writeRowFunc b s rowID row e = (r, e')"
  then show ?thesis
    using None by (simp add: stream_writeRowFunc_def)
next
  case (Some sw)
  assume "stream_writeRowFunc b s rowID row e = (r, e')"
  then show ?thesis
    unfolding stream_writeRowFunc_perform [OF Some]
    by (rule tracks_perform [rotated]) (auto simp: stream_row_calls_def list_all_iff)
qed

lemma tracks_call_InitFunc: "call_InitFunc f e = (r, e') \<Longrightarrow> tracks e e'"
  by (intro quiet_tracks) (auto simp: call_InitFunc_def Let_def grows_def)

lemma tracks_mem_initFunc: "mem_initFunc sheet s e = (r, e') \<Longrightarrow> tracks e e'"
  by (auto simp: mem_initFunc_def intro: tracks_call_InitFunc split: option.splits)

lemma NewStreamWriter_eq:
  "NewStreamWriter b s e =
     (respond b (File e) (File_NewStreamWriter s),
      e\<lparr>File := File e @ [(File_NewStreamWriter s, respond b (File e) (File_NewStreamWriter s))],
        StreamWriter := (if respond b (File e) (File_NewStreamWriter s) = None
                         then Some (length (File e)) else None)\<rparr>)"
  by (cases "respond b (File e) (File_NewStreamWriter s)") (simp_all add: NewStreamWriter_def invoke_eq)

lemma tracks_flush_then_new:
  assumes "and_then (case StreamWriter e of None \<Rightarrow> (None, e) | Some sw \<Rightarrow> invoke b (Stream_Flush sw) e)
             (NewStreamWriter b s) = (r, e')"
  shows "tracks e e'"
proof (cases "StreamWriter e")
  case None
  then have "NewStreamWriter b s e = (r, e')"
    using assms by simp
  then show ?thesis
    using None unfolding NewStreamWriter_eq tracks_def
    by (intro exI [where x = "[(File_NewStreamWriter s, respond b (File e) (File_NewStreamWriter s))]"])
       auto
next
  case (Some sw)
  show ?thesis
  proof (cases "respond b (File e) (Stream_Flush sw)")
    case (Some err)
    then have "e' = e\<lparr>File := File e @ [(Stream_Flush sw, Some err)]\<rparr>"
      using assms \<open>StreamWriter e = Some sw\<close> by (auto simp add: invoke_eq)
    then show ?thesis
      unfolding tracks_def by (intro exI [where x = "[(Stream_Flush sw, Some err)]"]) simp
  next
    case None
    let ?e1 = "e\<lparr>File := File e @ [(Stream_Flush sw, None)]\<rparr>"
    let ?rn = "respond b (File ?e1) (File_NewStreamWriter s)"
    have "NewStreamWriter b s ?e1 = (r, e')"
      using assms \<open>StreamWriter e = Some sw\<close> None by (simp add: invoke_eq)
    then have "e' = ?e1\<lparr>File := File ?e1 @ [(File_NewStreamWriter s, ?rn)],
                       StreamWriter := (if ?rn = None then Some (length (File ?e1)) else None)\<rparr>"
      unfolding NewStreamWriter_eq by auto
    then show ?thesis
      using \<open>StreamWriter e = Some sw\<close> unfolding tracks_def
      by (intro exI [where x = "[(Stream_Flush sw, None), (File_NewStreamWriter s, ?rn)]"]) simp
  qed
qed

lemma tracks_stream_initFunc:
  assumes "stream_initFunc b sheet s e = (r, e')"
  shows "tracks e e'"
proof -
  from assms have "and_then
      (and_then (case StreamWriter e of None \<Rightarrow> (None, e) | Some sw \<Rightarrow> invoke b (Stream_Flush sw) e)
         (NewStreamWriter b s))
      (\<lambda>e2. case InitFunc sheet of None \<Rightarrow> (None, e2) | Some f \<Rightarrow> call_InitFunc f e2) = (r, e')"
    by (simp add: stream_initFunc_def and_then_assoc)
  then show ?thesis
  proof (cases rule: and_then_cases)
    case (failed err)
    show ?thesis
      using failed(1) by (rule tracks_flush_then_new)
  next
    case (passed e2)
    have "tracks e e2"
      using passed(1) by (rule tracks_flush_then_new)
    moreover have "tracks e2 e'"
      using passed(2) by (auto split: option.splits intro: tracks_call_InitFunc)
    ultimately show ?thesis
      by (rule tracks_trans)
  qed
qed

lemma tracks_wrap_invoke: "quiet_call c \<Longrightarrow> wrap_err msg (invoke b c e) = (r, e') \<Longrightarrow> tracks e e'"
  using tracks_invoke [of c b e "respond b (File e) c" e']
  by (cases "respond b (File e) c") (auto simp: invoke_eq)

lemma tracks_row_step:
  assumes init: "\<And>s e r e1. initFunc s e = (r, e1) \<Longrightarrow> tracks e e1"
    and wr: "\<And>s rid row e r e1. writeRowFunc s rid row e = (r, e1) \<Longrightarrow> tracks e e1"
    and run: "row_step b sheet initFunc writeRowFunc rowID sfx row e = (r, e1)"
  shows "tracks e e1"
proof -
  have split: "tracks e0 e2" if "new_split_sheet b sheet initFunc n e0 = (r0, e2)" for e0 r0 e2 n
    using that [unfolded new_split_sheet_def Let_def]
  proof (cases rule: and_then_cases)
    case (failed err)
    then show ?thesis
      using tracks_wrap_invoke [of "File_NewSheet (Sprintf_s_d (Name sheet) n)"
          "''failed to create a new sheet''" b e0 "Some err" e2]
      by simp
  next
    case (passed s)
    have "tracks e0 s"
      using tracks_wrap_invoke [OF _ passed(1)] by simp
    moreover have "tracks s e2"
      using init [OF passed(2)] by simp
    ultimately show ?thesis
      by (rule tracks_trans)
  qed
  from run [unfolded row_step_def] show ?thesis
  proof (cases rule: and_then_cases)
    case (failed err)
    then show ?thesis
      using split by (auto split: if_splits)
  next
    case (passed s)
    have "tracks e s"
      using passed(1) split by (auto split: if_splits)
    then show ?thesis
      using wr [OF passed(2)] by (rule tracks_trans)
  qed
qed

lemma tracks_pull: "call_RowFunc sheet i e = (res, e1) \<Longrightarrow> tracks e e1"
  by (intro quiet_tracks) (auto simp: call_RowFunc_def Let_def grows_def)

lemma tracks_helper:
  assumes init: "\<And>s e r e1. initFunc s e = (r, e1) \<Longrightarrow> tracks e e1"
    and wr: "\<And>s rid row e r e1. writeRowFunc s rid row e = (r, e1) \<Longrightarrow> tracks e e1"
    and run: "exportHelper b sheet initFunc writeRowFunc fuel e = (st, e')"
  shows "tracks e e'"
proof -
  have "tracks e e' \<and> (st = Returned None \<longrightarrow> True)"
  proof (rule helper_rule [where R = "\<lambda>r. tracks" and I = "\<lambda>e. True" and initFunc = initFunc
        and writeRowFunc = writeRowFunc and b = b and sheet = sheet and fuel = fuel, OF _ _ _ _ _ run])
    show "tracks e0 e1 \<and> (r = None \<longrightarrow> True)"
      if "row_step b sheet initFunc writeRowFunc rowID sfx row e0 = (r, e1)" for rowID sfx row e0 r e1
      using tracks_row_step [OF init wr that] by simp
    show "tracks e e1 \<and> (r = None \<longrightarrow> True)"
      if "initFunc (Name sheet) (e\<lparr>CurrentSheet := Name sheet\<rparr>) = (r, e1)" for r e1
      using init [OF that] by simp
  qed (auto intro: tracks_trans tracks_pull)
  then show ?thesis by simp
qed

lemma tracks_exportUsingMemory: "exportUsingMemory b fuel sheet e = (st, e') \<Longrightarrow> tracks e e'"
  unfolding exportUsingMemory_def
  by (rule tracks_helper [where initFunc = "mem_initFunc sheet" and writeRowFunc = "mem_writeRowFunc b"])
     (auto intro: tracks_mem_initFunc tracks_mem_writeRowFunc)

lemma tracks_stream_helper:
  "exportHelper b sheet (stream_initFunc b sheet) (stream_writeRowFunc b) fuel e = (st, e') \<Longrightarrow>
   tracks e e'"
  by (rule tracks_helper [where initFunc = "stream_initFunc b sheet"
        and writeRowFunc = "stream_writeRowFunc b"])
     (auto intro: tracks_stream_initFunc tracks_stream_writeRowFunc)

lemma tracks_exportUsingStreamWriter:
  assumes "exportUsingStreamWriter b fuel sheet e = (st, e')"
  shows "tracks e e'"
  using assms
proof (cases rule: exportUsingStreamWriter_cases)
  case (flushed e1 sw r)
  have "tracks e e1"
    using flushed(1) by (rule tracks_stream_helper)
  moreover have "tracks e1 e'"
    using tracks_invoke [OF _ flushed(3)] by simp
  ultimately show ?thesis
    by (rule tracks_trans)
qed (auto intro: tracks_stream_helper)

lemma stream_ends_flushed:
  assumes "exportUsingStreamWriter b fuel sheet e = (Returned None, e')"
  shows "\<exists>h. StreamWriter e' = Some h \<and> File e' \<noteq> [] \<and> last (File e') = (Stream_Flush h, None)"
  using assms
proof (cases rule: exportUsingStreamWriter_cases)
  case (flushed e1 sw r)
  then show ?thesis
    by (auto simp: invoke_eq)
qed simp_all

lemma tracks_strategy:
  "(if UseStreamWriter e then exportUsingStreamWriter b fuel sheet e
    else exportUsingMemory b fuel sheet e) = (st, e') \<Longrightarrow> tracks e e'"
  by (auto intro: tracks_exportUsingStreamWriter tracks_exportUsingMemory split: if_splits)

lemma prelude_quiet:
  assumes "and_then (wrap_err ''failed to create a new sheet'' (invoke b (File_NewSheet n) e))
             (delete_default_sheet b i) = (r, e')"
  shows "tracks e e'" and "UseStreamWriter e' = UseStreamWriter e"
proof -
  have g: "grows quiet_call e
      (snd (and_then (wrap_err ''failed to create a new sheet'' (invoke b (File_NewSheet n) e))
             (delete_default_sheet b i)))"
    by (intro grows_and_then) (simp_all add: grows_invoke delete_default_sheet_def)
  have "StreamWriter e' = StreamWriter e"
    using assms
    by (auto simp: and_then_def wrap_err_def invoke_eq delete_default_sheet_def
             split: option.splits if_splits)
  then show "tracks e e'" and "UseStreamWriter e' = UseStreamWriter e"
    using g assms by (auto intro: quiet_tracks simp: grows_def)
qed

lemma tracks_Export_loop:
  "Export_loop b fuel i sheets e = (st, e') \<Longrightarrow> tracks e e'"
proof (induction sheets arbitrary: i e)
  case Nil
  then show ?case by auto
next
  case (Cons sheet rest)
  from Cons.prems show ?case
  proof (cases rule: Export_loop_cases)
    case (create_error err)
    then show ?thesis
      using prelude_quiet(1) by fastforce
  next
    case (sheet_stopped e1)
    then show ?thesis
      using prelude_quiet(1) [OF sheet_stopped(1)] tracks_strategy [OF sheet_stopped(2)] tracks_trans
      by blast
  next
    case (next_sheet e1 e2)
    have "tracks e e2"
      using prelude_quiet(1) [OF next_sheet(1)] tracks_strategy [OF next_sheet(2)] tracks_trans
      by blast
    then show ?thesis
      using Cons.IH [OF next_sheet(3)] tracks_trans by blast
  qed
qed

lemma Export_loop_ends_flushed:
  "Export_loop b fuel i sheets e = (Returned None, e') \<Longrightarrow> sheets \<noteq> [] \<Longrightarrow> UseStreamWriter e \<Longrightarrow>
   \<exists>h. StreamWriter e' = Some h \<and> File e' \<noteq> [] \<and> last (File e') = (Stream_Flush h, None)"
proof (induction sheets arbitrary: i e)
  case Nil
  then show ?case by simp
next
  case (Cons sheet rest)
  from Cons.prems(1) show ?case
  proof (cases rule: Export_loop_cases)
    case (next_sheet e1 e2)
    have stream1: "UseStreamWriter e1"
      using prelude_quiet(2) [OF next_sheet(1)] Cons.prems(3) by simp
    then have run: "exportUsingStreamWriter b fuel sheet e1 = (Returned None, e2)"
      using next_sheet(2) by simp
    have stream2: "UseStreamWriter e2"
      using grows_exportUsingStreamWriter [OF run] stream1 by (auto simp: grows_def)
    show ?thesis
    proof (cases rest)
      case Nil
      then show ?thesis
        using next_sheet(3) stream_ends_flushed [OF run] by simp
    next
      case (Cons a list)
      then show ?thesis
        using Cons.IH [OF next_sheet(3) _ stream2] by simp
    qed
  qed simp_all
qed

lemma flushed_before_switch_decompose:
  "flushed_before_switch k w fl (pre @ (File_NewStreamWriter n, r) # post) \<Longrightarrow>
   writer_after k w pre = None \<or>
   (if pre = [] then fl
    else \<exists>h. writer_after k w pre = Some h \<and> last pre = (Stream_Flush h, None))"
proof (induction pre arbitrary: k w fl)
  case Nil
  then show ?case by auto
next
  case (Cons x pre)
  define w' where "w' = (case fst x of File_NewStreamWriter m \<Rightarrow> (if snd x = None then Some k else None)
                         | _ \<Rightarrow> w)"
  define fl' where "fl' = (case fst x of Stream_Flush h \<Rightarrow> w = Some h \<and> snd x = None | _ \<Rightarrow> False)"
  have step: "flushed_before_switch (Suc k) w' fl' (pre @ (File_NewStreamWriter n, r) # post)"
    using Cons.prems unfolding w'_def fl'_def by (cases "fst x") simp_all
  have writer: "writer_after k w (x # pre) = writer_after (Suc k) w' pre"
    unfolding w'_def by simp
  have flag: "\<exists>h. w' = Some h \<and> x = (Stream_Flush h, None)" if fl'
    using that unfolding w'_def fl'_def by (cases x; cases "fst x") auto
  show ?case
  proof (cases "pre = []")
    case True
    then show ?thesis
      using Cons.IH [OF step] flag writer by auto
  next
    case False
    then show ?thesis
      using Cons.IH [OF step] writer by auto
  qed
qed

lemma unique_call_decompose:
  "list_all (\<lambda>y. fst y \<noteq> c) evs \<Longrightarrow> pre @ (c, r') # post = evs @ (c, r) # evs2 \<Longrightarrow>
   list_all (\<lambda>y. fst y \<noteq> c) evs2 \<Longrightarrow> pre = evs"
proof (induction evs arbitrary: pre)
  case Nil
  then show ?case
    by (cases pre) (auto simp: list_all_iff)
next
  case (Cons y evs)
  then show ?case
    by (cases pre) auto
qed

lemma grows_Export_loop:
  assumes P: "\<And>c. helper_call c \<Longrightarrow> P c" "\<And>n. P (File_DeleteSheet n)"
  shows "Export_loop b fuel i sheets e = (st, e') \<Longrightarrow> grows P e e'"
proof (induction sheets arbitrary: i e)
  case Nil
  then show ?case by auto
next
  case (Cons sheet rest)
  have pre: "grows P e
     (snd (and_then (wrap_err ''failed to create a new sheet'' (invoke b (File_NewSheet (Name sheet)) e))
             (delete_default_sheet b i)))"
    by (intro grows_and_then) (simp_all add: grows_invoke delete_default_sheet_def P)
  have strat: "grows P e1 e2"
    if "(if UseStreamWriter e1 then exportUsingStreamWriter b fuel sheet e1
         else exportUsingMemory b fuel sheet e1) = (st1, e2)" for e1 e2 st1
    using grows_mono [OF grows_strategy [OF that], of P] P(1) by blast
  from Cons.prems show ?case
  proof (cases rule: Export_loop_cases)
    case (create_error err)
    then show ?thesis using pre by simp
  next
    case (sheet_stopped e1)
    then show ?thesis
      using pre strat [OF sheet_stopped(2)] grows_trans by fastforce
  next
    case (next_sheet e1 e2)
    have "grows P e e1" "grows P e1 e2"
      using pre next_sheet(1) strat [OF next_sheet(2)] by simp_all
    then show ?thesis
      using Cons.IH [OF next_sheet(3)] grows_trans by blast
  qed
qed

lemma two_streamed_sheets:
  "Export example_backend 2 [example_sheet ''a'' example_row 1, example_sheet ''b'' example_row 1]
     (New ''out.xlsx'' True) =
   (Returned None,
    \<lparr>File =
       [(File_NewSheet ''a'', None), (File_NewStreamWriter ''a'', None), (RowFunc_call 0, None),
        (Stream_SetRow 1 ''1,1'' [\<lparr>Value = 7, StyleID = 0, Formula = []\<rparr>] [], None),
        (RowFunc_call 1, None), (Stream_Flush 1, None),
        (File_NewSheet ''b'', None), (Stream_Flush 1, None), (File_NewStreamWriter ''b'', None),
        (RowFunc_call 0, None),
        (Stream_SetRow 8 ''1,1'' [\<lparr>Value = 7, StyleID = 0, Formula = []\<rparr>] [], None),
        (RowFunc_call 1, None), (Stream_Flush 8, None),
        (File_SaveAs ''out.xlsx'', None), (File_Close, None)],
     FileName = ''out.xlsx'', CurrentSheet = ''b'', UseStreamWriter = True, StreamWriter = Some 8\<rparr>)"
  by (simp add: Export_def exportUsingStreamWriter_def exportHelper_def exportHelper_loop.simps
        numeral_2_eq_2 call_RowFunc_def stream_initFunc_def NewStreamWriter_def stream_writeRowFunc_def
        invoke_eq delete_default_sheet_def example_backend_def example_sheet_def example_row_def
        New_def Row_zero_def Let_def SheetMaxRows_def int64_def decimal.simps digit_char_def)

section \<open>The sheet list of a run\<close>

text \<open>
  Names that differ in case only are one sheet; calls other than a successful \<^verbatim>\<open>NewSheet\<close>
  or \<^verbatim>\<open>DeleteSheet\<close> leave the sheet list alone.
\<close>

lemma EqualFold_refl: "EqualFold s s"
  by (simp add: EqualFold_def)

lemma EqualFold_data: "\<not> EqualFold ''Sheet1'' ''data''"
  by (simp add: EqualFold_def)

lemma EqualFold_lower: "EqualFold ''Sheet1'' ''sheet1''"
  by (simp add: EqualFold_def fold_case_def)

lemma workbook_sheets_Nil: "workbook_sheets [] = [''Sheet1'']"
  by (simp add: workbook_sheets_def)

lemma workbook_sheets_snoc: "workbook_sheets (h @ [x]) = workbook_step (workbook_sheets h) x"
  by (simp add: workbook_sheets_def)

lemma workbook_sheets_Sheet1:
  "workbook_sheets [(File_NewSheet ''Sheet1'', None)] = [''Sheet1'']"
  by (simp add: workbook_sheets_def workbook_step_def EqualFold_refl)

lemma workbook_step_other:
  assumes "\<And>n. fst x \<noteq> File_NewSheet n" and "\<And>n. fst x \<noteq> File_DeleteSheet n"
  shows "workbook_step names x = names"
  using assms by (cases x) (auto simp add: workbook_step_def split: call.splits option.splits)

lemma workbook_sheets_others:
  assumes "\<And>x n. x \<in> set evs \<Longrightarrow> fst x \<noteq> File_NewSheet n \<and> fst x \<noteq> File_DeleteSheet n"
  shows "workbook_sheets (h @ evs) = workbook_sheets h"
  using assms
proof (induction evs rule: rev_induct)
  case Nil
  then show ?case by simp
next
  case (snoc x evs)
  have "workbook_sheets (h @ evs @ [x]) = workbook_step (workbook_sheets (h @ evs)) x"
    using workbook_sheets_snoc [of "h @ evs" x] by simp
  also have "\<dots> = workbook_sheets (h @ evs)"
    using snoc.prems [of x] by (intro workbook_step_other) simp_all
  finally show ?case
    using snoc by simp
qed

lemma counting_sheets_simps:
  "respond (counting_sheets b) = respond b"
  "CoordinatesToCellName (counting_sheets b) = CoordinatesToCellName b"
  "SheetCount (counting_sheets b) h = int (length (workbook_sheets h))"
  "never_fails (counting_sheets b) = never_fails b"
  "buffered_calls (counting_sheets b) = buffered_calls b"
  "stream_row_calls (counting_sheets b) = stream_row_calls b"
  by (simp_all add: counting_sheets_def never_fails_def buffered_calls_def stream_row_calls_def
      buffered_row_calls_def buffered_cell_calls_def fun_eq_iff)

lemma rows_log_buffered_others:
  assumes "x \<in> set (rows_log (buffered_calls b name) rowf rowID idx n)"
  shows "fst x \<noteq> File_NewSheet m \<and> fst x \<noteq> File_DeleteSheet m"
  using assms
  by (auto simp add: rows_log_def ok_def buffered_calls_def buffered_row_calls_def
      buffered_cell_calls_def Let_def split: if_splits)

lemma rows_log_stream_others:
  assumes "x \<in> set (rows_log (stream_row_calls b sw) rowf rowID idx n)"
  shows "fst x \<noteq> File_NewSheet m \<and> fst x \<noteq> File_DeleteSheet m"
  using assms
  by (auto simp add: rows_log_def ok_def stream_row_calls_def)

lemma hook_entry_others:
  assumes "x \<in> set (hook_entry sheet name)"
  shows "fst x \<noteq> File_NewSheet m \<and> fst x \<noteq> File_DeleteSheet m"
  using assms by (auto simp add: hook_entry_def split: option.splits)

text \<open>
  On a fresh workbook, creating \<^verbatim>\<open>Sheet1\<close> leaves the one sheet there is, and a single sheet
  of that name is exported without a deletion.
\<close>

lemma fresh_count_Sheet1:
  "SheetCount (counting_sheets b) (File (New fileName usw) @ [(File_NewSheet ''Sheet1'', None)]) = 1"
  by (simp add: counting_sheets_simps New_def workbook_sheets_Sheet1)

lemma fresh_Sheet1_mem:
  assumes name: "Name sheet = ''Sheet1''"
    and nf: "never_fails b" and hf: "hook_never_fails sheet"
    and src: "feeds sheet rowf n" and n: "int n \<le> SheetMaxRows" and fuel: "n < fuel"
  shows "Export (counting_sheets b) fuel [sheet] (New fileName False) =
           (Returned None,
            \<lparr>File = [(File_NewSheet ''Sheet1'', None)]
                    @ hook_entry sheet ''Sheet1''
                    @ rows_log (buffered_calls b ''Sheet1'') rowf 1 0 n
                    @ [(RowFunc_call (int n), None), (File_SaveAs fileName, None), (File_Close, None)],
             FileName = fileName, CurrentSheet = ''Sheet1'', UseStreamWriter = False,
             StreamWriter = None\<rparr>)"
proof -
  have nf': "never_fails (counting_sheets b)"
    using nf by (simp add: counting_sheets_simps)
  have mem: "\<not> UseStreamWriter (New fileName False)"
    by (simp add: New_def)
  have one: "SheetCount (counting_sheets b)
      (File (New fileName False) @ [(File_NewSheet (Name sheet), None)]) \<le> 1"
    using fresh_count_Sheet1 [of b fileName False] name by simp
  show ?thesis
    using Export_single_mem [OF nf' hf src n fuel mem one] name
    by (simp add: counting_sheets_simps New_def)
qed

lemma fresh_Sheet1_stream:
  assumes name: "Name sheet = ''Sheet1''"
    and nf: "never_fails b" and hf: "hook_never_fails sheet"
    and src: "feeds sheet rowf n" and n: "int n \<le> SheetMaxRows" and fuel: "n < fuel"
  shows "Export (counting_sheets b) fuel [sheet] (New fileName True) =
           (Returned None,
            \<lparr>File = [(File_NewSheet ''Sheet1'', None), (File_NewStreamWriter ''Sheet1'', None)]
                    @ hook_entry sheet ''Sheet1''
                    @ rows_log (stream_row_calls b 1) rowf 1 0 n
                    @ [(RowFunc_call (int n), None), (Stream_Flush 1, None),
                       (File_SaveAs fileName, None), (File_Close, None)],
             FileName = fileName, CurrentSheet = ''Sheet1'', UseStreamWriter = True,
             StreamWriter = Some 1\<rparr>)"
proof -
  have nf': "never_fails (counting_sheets b)"
    using nf by (simp add: counting_sheets_simps)
  have stream: "UseStreamWriter (New fileName True)"
    by (simp add: New_def)
  have one: "SheetCount (counting_sheets b)
      (File (New fileName True) @ [(File_NewSheet (Name sheet), None)]) \<le> 1"
    using fresh_count_Sheet1 [of b fileName True] name by simp
  have h: "1 = Suc (length (File (New fileName True) @ flush_entry (StreamWriter (New fileName True))))"
    by (simp add: New_def flush_entry_def)
  show ?thesis
    using Export_single_stream [OF nf' hf src n fuel stream one h] name
    by (simp add: counting_sheets_simps New_def flush_entry_def)
qed

lemma written_sheets_mem:
  fixes b :: "('v, 'o) backend"
  shows "workbook_sheets ([(File_NewSheet ''Sheet1'', None)]
      @ hook_entry sheet ''Sheet1''
      @ rows_log (buffered_calls b ''Sheet1'') rowf 1 0 n
      @ [(RowFunc_call (int n), None), (File_SaveAs fileName, None), (File_Close, None)]) = [''Sheet1'']"
proof -
  have "workbook_sheets ([(File_NewSheet ''Sheet1'', None)]
      @ (hook_entry sheet ''Sheet1''
         @ rows_log (buffered_calls b ''Sheet1'') rowf 1 0 n
         @ [(RowFunc_call (int n), None), (File_SaveAs fileName, None), (File_Close, None)])) =
    workbook_sheets ([(File_NewSheet ''Sheet1'', None)] :: ('v, 'o) history)"
    by (rule workbook_sheets_others)
      (auto dest: hook_entry_others rows_log_buffered_others)
  then show ?thesis
    by (simp add: workbook_sheets_Sheet1)
qed

lemma written_sheets_stream:
  fixes b :: "('v, 'o) backend"
  shows "workbook_sheets ([(File_NewSheet ''Sheet1'', None), (File_NewStreamWriter ''Sheet1'', None)]
      @ hook_entry sheet ''Sheet1''
      @ rows_log (stream_row_calls b sw) rowf 1 0 n
      @ [(RowFunc_call (int n), None), (Stream_Flush sw, None),
         (File_SaveAs fileName, None), (File_Close, None)]) = [''Sheet1'']"
proof -
  have "workbook_sheets ([(File_NewSheet ''Sheet1'', None)]
      @ ((File_NewStreamWriter ''Sheet1'', None) # hook_entry sheet ''Sheet1''
         @ rows_log (stream_row_calls b sw) rowf 1 0 n
         @ [(RowFunc_call (int n), None), (Stream_Flush sw, None),
            (File_SaveAs fileName, None), (File_Close, None)])) =
    workbook_sheets ([(File_NewSheet ''Sheet1'', None)] :: ('v, 'o) history)"
    by (rule workbook_sheets_others)
      (auto dest: hook_entry_others rows_log_stream_others)
  then show ?thesis
    by (simp add: workbook_sheets_Sheet1)
qed

text \<open>The lower-case spelling names the placeholder too: nothing is added, nothing deleted.\<close>

lemma lower_case_names_the_placeholder:
  "SheetCount workbook_double [(File_NewSheet ''sheet1'', None)] = 1
   \<and> deleted (File (snd (Export workbook_double 3 [example_sheet ''sheet1'' example_row 1]
                           (New ''out.xlsx'' False)))) = []"
proof -
  have count: "SheetCount workbook_double [(File_NewSheet ''sheet1'', None)] = 1"
    by (simp add: workbook_double_def workbook_sheets_def workbook_step_def EqualFold_def
        fold_case_def)
  then show ?thesis
    using Export_calls [of workbook_double 3 "[example_sheet ''sheet1'' example_row 1]"
        "New ''out.xlsx'' False"]
    by (simp add: New_def deleted_def example_sheet_Name)
qed

section \<open>Sheet splitting\<close>

text \<open>
  C1. On a backend and with a hook that never fail, a row source that feeds exactly
  \<open>SheetMaxRows + 1\<close> rows and then the sentinel makes the helper write the first
  \<open>SheetMaxRows\<close> rows at row numbers \<open>1..SheetMaxRows\<close> of the sheet named \<open>Name sheet\<close>,
  create one more sheet named \<open>Name sheet @ ''_1''\<close>, run the init function again (in the
  streaming strategy after flushing the first stream), and write the last row at row number
  1 of the new sheet; a source that feeds exactly \<open>SheetMaxRows\<close> rows makes it create no
  sheet. Both strategies.
\<close>

theorem split_after_SheetMaxRows:
  assumes "never_fails b" and "hook_never_fails sheet" and "hook_never_fails sheet'"
  shows
    "(feeds sheet rowf (nat SheetMaxRows + 1) \<and> nat SheetMaxRows + 1 < fuel \<longrightarrow>
        exportUsingMemory b fuel sheet e =
          (Returned None,
           e\<lparr>CurrentSheet := Name sheet @ ''_1'',
             File := File e @ hook_entry sheet (Name sheet)
                     @ rows_log (buffered_calls b (Name sheet)) rowf 1 0 (nat SheetMaxRows)
                     @ [(RowFunc_call SheetMaxRows, None), (File_NewSheet (Name sheet @ ''_1''), None)]
                     @ hook_entry sheet (Name sheet @ ''_1'')
                     @ ok (buffered_calls b (Name sheet @ ''_1'') 1 (rowf SheetMaxRows))
                     @ [(RowFunc_call (SheetMaxRows + 1), None)]\<rparr>) \<and>
        (\<exists>h1 h2. h1 < h2 \<and>
           exportUsingStreamWriter b fuel sheet e =
             (Returned None,
              e\<lparr>CurrentSheet := Name sheet @ ''_1'', StreamWriter := Some h2,
                File := File e @ flush_entry (StreamWriter e) @ [(File_NewStreamWriter (Name sheet), None)]
                        @ hook_entry sheet (Name sheet)
                        @ rows_log (stream_row_calls b h1) rowf 1 0 (nat SheetMaxRows)
                        @ [(RowFunc_call SheetMaxRows, None), (File_NewSheet (Name sheet @ ''_1''), None),
                           (Stream_Flush h1, None), (File_NewStreamWriter (Name sheet @ ''_1''), None)]
                        @ hook_entry sheet (Name sheet @ ''_1'')
                        @ ok (stream_row_calls b h2 1 (rowf SheetMaxRows))
                        @ [(RowFunc_call (SheetMaxRows + 1), None), (Stream_Flush h2, None)]\<rparr>)))
     \<and>
     (feeds sheet' rowf' (nat SheetMaxRows) \<and> nat SheetMaxRows < fuel' \<longrightarrow>
        exportUsingMemory b fuel' sheet' e =
          (Returned None,
           e\<lparr>CurrentSheet := Name sheet',
             File := File e @ hook_entry sheet' (Name sheet')
                     @ rows_log (buffered_calls b (Name sheet')) rowf' 1 0 (nat SheetMaxRows)
                     @ [(RowFunc_call SheetMaxRows, None)]\<rparr>) \<and>
        (\<exists>h. exportUsingStreamWriter b fuel' sheet' e =
             (Returned None,
              e\<lparr>CurrentSheet := Name sheet', StreamWriter := Some h,
                File := File e @ flush_entry (StreamWriter e) @ [(File_NewStreamWriter (Name sheet'), None)]
                        @ hook_entry sheet' (Name sheet')
                        @ rows_log (stream_row_calls b h) rowf' 1 0 (nat SheetMaxRows)
                        @ [(RowFunc_call SheetMaxRows, None), (Stream_Flush h, None)]\<rparr>)))"
proof (intro conjI impI; elim conjE)
  assume src: "feeds sheet rowf (nat SheetMaxRows + 1)" and fuel: "nat SheetMaxRows + 1 < fuel"
  show "exportUsingMemory b fuel sheet e =
          (Returned None,
           e\<lparr>CurrentSheet := Name sheet @ ''_1'',
             File := File e @ hook_entry sheet (Name sheet)
                     @ rows_log (buffered_calls b (Name sheet)) rowf 1 0 (nat SheetMaxRows)
                     @ [(RowFunc_call SheetMaxRows, None), (File_NewSheet (Name sheet @ ''_1''), None)]
                     @ hook_entry sheet (Name sheet @ ''_1'')
                     @ ok (buffered_calls b (Name sheet @ ''_1'') 1 (rowf SheetMaxRows))
                     @ [(RowFunc_call (SheetMaxRows + 1), None)]\<rparr>)"
    by (rule mem_one_split [OF assms(1,2) src fuel])
  let ?h1 = "length (File e @ flush_entry (StreamWriter e))"
  let ?h2 = "length (File e @ flush_entry (StreamWriter e) @ [(File_NewStreamWriter (Name sheet), None)]
                      @ hook_entry sheet (Name sheet)
                      @ rows_log (stream_row_calls b ?h1) rowf 1 0 (nat SheetMaxRows)) + 3"
  have "?h1 < ?h2" by simp
  then show "\<exists>h1 h2. h1 < h2 \<and>
           exportUsingStreamWriter b fuel sheet e =
             (Returned None,
              e\<lparr>CurrentSheet := Name sheet @ ''_1'', StreamWriter := Some h2,
                File := File e @ flush_entry (StreamWriter e) @ [(File_NewStreamWriter (Name sheet), None)]
                        @ hook_entry sheet (Name sheet)
                        @ rows_log (stream_row_calls b h1) rowf 1 0 (nat SheetMaxRows)
                        @ [(RowFunc_call SheetMaxRows, None), (File_NewSheet (Name sheet @ ''_1''), None),
                           (Stream_Flush h1, None), (File_NewStreamWriter (Name sheet @ ''_1''), None)]
                        @ hook_entry sheet (Name sheet @ ''_1'')
                        @ ok (stream_row_calls b h2 1 (rowf SheetMaxRows))
                        @ [(RowFunc_call (SheetMaxRows + 1), None), (Stream_Flush h2, None)]\<rparr>)"
    using stream_one_split [OF assms(1,2) src fuel refl refl, of e] by blast
next
  assume src: "feeds sheet' rowf' (nat SheetMaxRows)" and fuel: "nat SheetMaxRows < fuel'"
  have n: "int (nat SheetMaxRows) \<le> SheetMaxRows"
    using SheetMaxRows_bounds by simp
  have M: "int (nat SheetMaxRows) = SheetMaxRows"
    using SheetMaxRows_bounds by simp
  show "exportUsingMemory b fuel' sheet' e =
          (Returned None,
           e\<lparr>CurrentSheet := Name sheet',
             File := File e @ hook_entry sheet' (Name sheet')
                     @ rows_log (buffered_calls b (Name sheet')) rowf' 1 0 (nat SheetMaxRows)
                     @ [(RowFunc_call SheetMaxRows, None)]\<rparr>)"
    using mem_no_split [OF assms(1,3) src n fuel, of e] unfolding M .
  show "\<exists>h. exportUsingStreamWriter b fuel' sheet' e =
             (Returned None,
              e\<lparr>CurrentSheet := Name sheet', StreamWriter := Some h,
                File := File e @ flush_entry (StreamWriter e) @ [(File_NewStreamWriter (Name sheet'), None)]
                        @ hook_entry sheet' (Name sheet')
                        @ rows_log (stream_row_calls b h) rowf' 1 0 (nat SheetMaxRows)
                        @ [(RowFunc_call SheetMaxRows, None), (Stream_Flush h, None)]\<rparr>)"
    using stream_no_split [OF assms(1,3) src n fuel refl, of e] unfolding M by blast
qed

theorem split_after_SheetMaxRows_witness:
  "exportUsingMemory example_backend (nat SheetMaxRows + 2)
       (example_sheet ''data'' example_row (nat SheetMaxRows + 1)) (New ''out.xlsx'' False) =
     (Returned None,
      \<lparr>File = rows_log (buffered_calls example_backend ''data'') (\<lambda>i. example_row) 1 0 (nat SheetMaxRows)
              @ [(RowFunc_call SheetMaxRows, None), (File_NewSheet ''data_1'', None),
                 (File_SetCellValue ''data_1'' ''1,1'' 7, None),
                 (RowFunc_call (SheetMaxRows + 1), None)],
       FileName = ''out.xlsx'', CurrentSheet = ''data_1'', UseStreamWriter = False, StreamWriter = None\<rparr>)
   \<and> exportUsingMemory example_backend (nat SheetMaxRows + 2)
       (example_sheet ''data'' example_row (nat SheetMaxRows)) (New ''out.xlsx'' False) =
     (Returned None,
      \<lparr>File = rows_log (buffered_calls example_backend ''data'') (\<lambda>i. example_row) 1 0 (nat SheetMaxRows)
              @ [(RowFunc_call SheetMaxRows, None)],
       FileName = ''out.xlsx'', CurrentSheet = ''data'', UseStreamWriter = False, StreamWriter = None\<rparr>)"
proof -
  have present: "Cells example_row \<noteq> None"
    by (simp add: example_row_def)
  have name: "Name (example_sheet ''data'' example_row n) = ''data''" for n
    by (simp add: example_sheet_def)
  have hook: "hook_entry (example_sheet ''data'' example_row n) s = []" for n s
    by (simp add: hook_entry_def example_sheet_def)
  have last: "ok (buffered_calls example_backend ''data_1'' 1 example_row) =
      [(File_SetCellValue ''data_1'' ''1,1'' 7, None)]"
    by (simp add: ok_def buffered_calls_def buffered_row_calls_def buffered_cell_calls_def cells_of_def
          example_row_def example_backend_def decimal.simps digit_char_def)
  show ?thesis
    using split_after_SheetMaxRows [where b = example_backend
          and sheet = "example_sheet ''data'' example_row (nat SheetMaxRows + 1)"
          and sheet' = "example_sheet ''data'' example_row (nat SheetMaxRows)"
          and rowf = "\<lambda>i. example_row" and rowf' = "\<lambda>i. example_row"
          and fuel = "nat SheetMaxRows + 2" and fuel' = "nat SheetMaxRows + 2"
          and e = "New ''out.xlsx'' False",
          OF example_backend_never_fails example_sheet_hook example_sheet_hook]
      example_sheet_feeds [OF present]
    by (simp add: name hook last New_def)
qed

section \<open>The end-of-data sentinel\<close>

text \<open>
  C2. A pulled row whose cells are absent ends the loop: the helper returns nil and the
  history grows by that pull only. A row whose cells are present is written, whether it
  has cells or not: \<open>feeds\<close> asks for present cells only, and any \<open>n\<close> such rows (up to
  \<open>SheetMaxRows\<close>) are written at row numbers \<open>1..n\<close>. In particular a source that yields
  one row with present but empty cells and then the sentinel gets that row written (its
  merges in the buffered strategy, a \<open>SetRow\<close> with no values and its merges in the
  streaming strategy) and is pulled a second time.
\<close>

theorem absent_cells_end_the_loop_empty_cells_are_a_row:
  assumes "never_fails b" and "hook_never_fails sheet"
  shows
    "(RowFunc sheet' (File e') rowIndex = Inr row \<and> Cells row = None \<longrightarrow>
        exportHelper_loop b sheet' initFunc writeRowFunc (Suc k) rowID sheetSuffix rowIndex e' =
          (Returned None, e'\<lparr>File := File e' @ [(RowFunc_call rowIndex, None)]\<rparr>))
     \<and>
     (feeds sheet rowf n \<and> int n \<le> SheetMaxRows \<and> n < fuel \<longrightarrow>
        exportUsingMemory b fuel sheet e =
          (Returned None,
           e\<lparr>CurrentSheet := Name sheet,
             File := File e @ hook_entry sheet (Name sheet)
                     @ rows_log (buffered_calls b (Name sheet)) rowf 1 0 n
                     @ [(RowFunc_call (int n), None)]\<rparr>) \<and>
        (\<exists>h. exportUsingStreamWriter b fuel sheet e =
           (Returned None,
            e\<lparr>CurrentSheet := Name sheet, StreamWriter := Some h,
              File := File e @ flush_entry (StreamWriter e) @ [(File_NewStreamWriter (Name sheet), None)]
                      @ hook_entry sheet (Name sheet)
                      @ rows_log (stream_row_calls b h) rowf 1 0 n
                      @ [(RowFunc_call (int n), None), (Stream_Flush h, None)]\<rparr>)))
     \<and>
     (feeds sheet rowf 1 \<and> Cells (rowf 0) = Some [] \<and> 1 < fuel \<longrightarrow>
        exportUsingMemory b fuel sheet e =
          (Returned None,
           e\<lparr>CurrentSheet := Name sheet,
             File := File e @ hook_entry sheet (Name sheet)
                     @ [(RowFunc_call 0, None)]
                     @ ok (map (\<lambda>m. File_MergeCell (Name sheet) (TopLeftCell m) (BottomRightCell m))
                             (MergeCells (rowf 0)))
                     @ [(RowFunc_call 1, None)]\<rparr>) \<and>
        (\<exists>h. exportUsingStreamWriter b fuel sheet e =
           (Returned None,
            e\<lparr>CurrentSheet := Name sheet, StreamWriter := Some h,
              File := File e @ flush_entry (StreamWriter e) @ [(File_NewStreamWriter (Name sheet), None)]
                      @ hook_entry sheet (Name sheet)
                      @ [(RowFunc_call 0, None),
                         (Stream_SetRow h (CoordinatesToCellName b 1 1) [] (RowOpts (rowf 0)), None)]
                      @ ok (map (\<lambda>m. Stream_MergeCell h (TopLeftCell m) (BottomRightCell m))
                              (MergeCells (rowf 0)))
                      @ [(RowFunc_call 1, None), (Stream_Flush h, None)]\<rparr>)))"
proof (intro conjI impI; elim conjE)
  assume "RowFunc sheet' (File e') rowIndex = Inr row" "Cells row = None"
  then show "exportHelper_loop b sheet' initFunc writeRowFunc (Suc k) rowID sheetSuffix rowIndex e' =
          (Returned None, e'\<lparr>File := File e' @ [(RowFunc_call rowIndex, None)]\<rparr>)"
    by (rule loop_sentinel)
next
  assume src: "feeds sheet rowf n" and n: "int n \<le> SheetMaxRows" and fuel: "n < fuel"
  show "exportUsingMemory b fuel sheet e =
          (Returned None,
           e\<lparr>CurrentSheet := Name sheet,
             File := File e @ hook_entry sheet (Name sheet)
                     @ rows_log (buffered_calls b (Name sheet)) rowf 1 0 n
                     @ [(RowFunc_call (int n), None)]\<rparr>)"
    by (rule mem_no_split [OF assms src n fuel])
  show "\<exists>h. exportUsingStreamWriter b fuel sheet e =
           (Returned None,
            e\<lparr>CurrentSheet := Name sheet, StreamWriter := Some h,
              File := File e @ flush_entry (StreamWriter e) @ [(File_NewStreamWriter (Name sheet), None)]
                      @ hook_entry sheet (Name sheet)
                      @ rows_log (stream_row_calls b h) rowf 1 0 n
                      @ [(RowFunc_call (int n), None), (Stream_Flush h, None)]\<rparr>)"
    using stream_no_split [OF assms src n fuel refl, of e] by blast
next
  assume src: "feeds sheet rowf 1" and empty: "Cells (rowf 0) = Some []" and fuel: "1 < fuel"
  have n: "int 1 \<le> SheetMaxRows"
    using SheetMaxRows_bounds by simp
  show "exportUsingMemory b fuel sheet e =
          (Returned None,
           e\<lparr>CurrentSheet := Name sheet,
             File := File e @ hook_entry sheet (Name sheet)
                     @ [(RowFunc_call 0, None)]
                     @ ok (map (\<lambda>m. File_MergeCell (Name sheet) (TopLeftCell m) (BottomRightCell m))
                             (MergeCells (rowf 0)))
                     @ [(RowFunc_call 1, None)]\<rparr>)"
    using mem_no_split [OF assms src n fuel, of e]
    by (simp add: rows_log_1 buffered_calls_zero_width [OF empty])
  show "\<exists>h. exportUsingStreamWriter b fuel sheet e =
           (Returned None,
            e\<lparr>CurrentSheet := Name sheet, StreamWriter := Some h,
              File := File e @ flush_entry (StreamWriter e) @ [(File_NewStreamWriter (Name sheet), None)]
                      @ hook_entry sheet (Name sheet)
                      @ [(RowFunc_call 0, None),
                         (Stream_SetRow h (CoordinatesToCellName b 1 1) [] (RowOpts (rowf 0)), None)]
                      @ ok (map (\<lambda>m. Stream_MergeCell h (TopLeftCell m) (BottomRightCell m))
                              (MergeCells (rowf 0)))
                      @ [(RowFunc_call 1, None), (Stream_Flush h, None)]\<rparr>)"
    using stream_no_split [OF assms src n fuel refl, of e]
    by (intro exI [where x = "length (File e @ flush_entry (StreamWriter e))"])
       (simp add: rows_log_1 stream_row_calls_zero_width [OF empty] ok_def)
qed

theorem absent_cells_end_the_loop_empty_cells_are_a_row_witness:
  "exportHelper_loop example_backend (example_sheet ''data'' zero_width_row 0)
       (mem_initFunc (example_sheet ''data'' zero_width_row 0)) (mem_writeRowFunc example_backend)
       (Suc 0) 1 0 0 (New ''out.xlsx'' False) =
     (Returned None,
      \<lparr>File = [(RowFunc_call 0, None)],
       FileName = ''out.xlsx'', CurrentSheet = [], UseStreamWriter = False, StreamWriter = None\<rparr>)
   \<and> exportUsingMemory example_backend 2 (example_sheet ''data'' zero_width_row 1) (New ''out.xlsx'' False) =
     (Returned None,
      \<lparr>File = [(RowFunc_call 0, None), (File_MergeCell ''data'' ''A1'' ''B1'', None),
               (RowFunc_call 1, None)],
       FileName = ''out.xlsx'', CurrentSheet = ''data'', UseStreamWriter = False, StreamWriter = None\<rparr>)
   \<and> (\<exists>h. exportUsingStreamWriter example_backend 2 (example_sheet ''data'' zero_width_row 1) (New ''out.xlsx'' True) =
     (Returned None,
      \<lparr>File = [(File_NewStreamWriter ''data'', None), (RowFunc_call 0, None),
               (Stream_SetRow h ''1,1'' [] [], None), (Stream_MergeCell h ''A1'' ''B1'', None),
               (RowFunc_call 1, None), (Stream_Flush h, None)],
       FileName = ''out.xlsx'', CurrentSheet = ''data'', UseStreamWriter = True, StreamWriter = Some h\<rparr>))"
proof -
  have present: "Cells zero_width_row \<noteq> None" and empty: "Cells zero_width_row = Some []"
    by (simp_all add: zero_width_row_def)
  have name: "Name (example_sheet ''data'' zero_width_row n) = ''data''" for n
    by (simp add: example_sheet_def)
  have hook: "hook_entry (example_sheet ''data'' zero_width_row n) s = []" for n s
    by (simp add: hook_entry_def example_sheet_def)
  have sentinel: "RowFunc (example_sheet ''data'' zero_width_row 0) (File (New ''out.xlsx'' False)) 0 = Inr Row_zero"
      "Cells (Row_zero :: (int, unit) Row) = None"
    by (simp_all add: example_sheet_def Row_zero_def)
  have cell: "CoordinatesToCellName example_backend 1 1 = ''1,1''"
    by (simp add: example_backend_def decimal.simps digit_char_def)
  have one: "(1::nat) < 2" "int 1 \<le> SheetMaxRows"
    using SheetMaxRows_bounds by simp_all
  have fields: "MergeCells zero_width_row = [\<lparr>TopLeftCell = ''A1'', BottomRightCell = ''B1''\<rparr>]"
      "RowOpts zero_width_row = []"
    by (simp_all add: zero_width_row_def)
  note inst = absent_cells_end_the_loop_empty_cells_are_a_row [where b = example_backend
      and sheet = "example_sheet ''data'' zero_width_row 1" and sheet' = "example_sheet ''data'' zero_width_row 0"
      and rowf = "\<lambda>i. zero_width_row" and n = 1 and fuel = 2 and row = Row_zero and rowIndex = 0
      and initFunc = "mem_initFunc (example_sheet ''data'' zero_width_row 0)"
      and writeRowFunc = "mem_writeRowFunc example_backend" and k = 0 and rowID = 1 and sheetSuffix = 0,
      OF example_backend_never_fails example_sheet_hook]
  have first: "exportHelper_loop example_backend (example_sheet ''data'' zero_width_row 0)
       (mem_initFunc (example_sheet ''data'' zero_width_row 0)) (mem_writeRowFunc example_backend)
       (Suc 0) 1 0 0 (New ''out.xlsx'' False) =
     (Returned None,
      \<lparr>File = [(RowFunc_call 0, None)],
       FileName = ''out.xlsx'', CurrentSheet = [], UseStreamWriter = False, StreamWriter = None\<rparr>)"
    using inst [of "New ''out.xlsx'' False" "New ''out.xlsx'' False"] sentinel by (simp add: New_def)
  have second: "exportUsingMemory example_backend 2 (example_sheet ''data'' zero_width_row 1) (New ''out.xlsx'' False) =
     (Returned None,
      \<lparr>File = [(RowFunc_call 0, None), (File_MergeCell ''data'' ''A1'' ''B1'', None),
               (RowFunc_call 1, None)],
       FileName = ''out.xlsx'', CurrentSheet = ''data'', UseStreamWriter = False, StreamWriter = None\<rparr>)"
    using inst [of "New ''out.xlsx'' False" "New ''out.xlsx'' False"] example_sheet_feeds [OF present, where n = 1]
      empty one
    by (simp add: name hook New_def ok_def fields rows_log_1 buffered_calls_zero_width [OF empty])
  have third: "\<exists>h. exportUsingStreamWriter example_backend 2 (example_sheet ''data'' zero_width_row 1) (New ''out.xlsx'' True) =
     (Returned None,
      \<lparr>File = [(File_NewStreamWriter ''data'', None), (RowFunc_call 0, None),
               (Stream_SetRow h ''1,1'' [] [], None), (Stream_MergeCell h ''A1'' ''B1'', None),
               (RowFunc_call 1, None), (Stream_Flush h, None)],
       FileName = ''out.xlsx'', CurrentSheet = ''data'', UseStreamWriter = True, StreamWriter = Some h\<rparr>)"
    using inst [of "New ''out.xlsx'' False" "New ''out.xlsx'' True"] example_sheet_feeds [OF present, where n = 1]
      empty one
    by (auto simp add: name hook New_def ok_def fields flush_entry_def cell rows_log_1
          stream_row_calls_zero_width [OF empty])
  show ?thesis
    using first second third by blast
qed

section \<open>The default sheet\<close>

text \<open>
  C6. \<^verbatim>\<open>Export\<close> calls \<^verbatim>\<open>DeleteSheet\<close> at most once, with the name \<^verbatim>\<open>Sheet1\<close>: once
  exactly when there is a first sheet, its \<^verbatim>\<open>NewSheet\<close> succeeded and the workbook then
  counts more than one sheet, and the call then comes right after that \<^verbatim>\<open>NewSheet\<close>.
  With no sheets the only calls are \<^verbatim>\<open>SaveAs\<close> and the deferred \<^verbatim>\<open>Close\<close>.
\<close>

theorem default_sheet_deleted_at_most_once:
  "deleted (File (snd (Export b fuel sheets e))) =
     deleted (File e) @
     (case sheets of
        [] \<Rightarrow> []
      | sheet # rest \<Rightarrow>
          if respond b (File e) (File_NewSheet (Name sheet)) = None \<and>
             1 < SheetCount b (File e @ [(File_NewSheet (Name sheet), None)])
          then [''Sheet1''] else [])
   \<and> (case sheets of
        [] \<Rightarrow>
          \<exists>rs rc. File (snd (Export b fuel sheets e)) =
                    File e @ [(File_SaveAs (FileName e), rs), (File_Close, rc)]
      | sheet # rest \<Rightarrow>
          \<exists>rn evs. File (snd (Export b fuel sheets e)) =
                     File e @ (File_NewSheet (Name sheet), rn)
                     # (if rn = None \<and> 1 < SheetCount b (File e @ [(File_NewSheet (Name sheet), None)])
                        then [(File_DeleteSheet ''Sheet1'',
                               respond b (File e @ [(File_NewSheet (Name sheet), None)])
                                 (File_DeleteSheet ''Sheet1''))]
                        else [])
                     @ evs \<and> deleted evs = [])"
  by (rule Export_calls)

theorem default_sheet_deleted_at_most_once_witness:
  "deleted (File (snd (Export workbook_double 3 [example_sheet ''data'' example_row 1]
                         (New ''out.xlsx'' False)))) = [''Sheet1'']
   \<and> File (snd (Export workbook_double 3 [] (New ''out.xlsx'' False))) =
       [(File_SaveAs ''out.xlsx'', None), (File_Close, None)]"
proof -
  have count: "SheetCount workbook_double [(File_NewSheet ''data'', None)] = 2"
    by (simp add: workbook_double_def workbook_sheets_def workbook_step_def EqualFold_def)
  have ok: "respond workbook_double h c = None" for h c
    by (simp add: workbook_double_def)
  have one: "deleted (File (snd (Export workbook_double 3 [example_sheet ''data'' example_row 1]
                         (New ''out.xlsx'' False)))) = [''Sheet1'']"
    using default_sheet_deleted_at_most_once [of workbook_double 3
        "[example_sheet ''data'' example_row 1]" "New ''out.xlsx'' False"]
    by (simp add: New_def count ok example_sheet_Name deleted_def)
  have none: "File (snd (Export workbook_double 3 [] (New ''out.xlsx'' False))) =
       [(File_SaveAs ''out.xlsx'', None), (File_Close, None)]"
    by (simp add: Export_def invoke_eq ok New_def)
  show ?thesis
    using one none by simp
qed

text \<open>
  C10. The sheet \<^verbatim>\<open>Export\<close> deletes is named by the literal \<^verbatim>\<open>Sheet1\<close>, whichever sheet
  the workbook holds as its placeholder: no run deletes a sheet under another name. When
  the first sheet of an export on a fresh workbook (\<^verbatim>\<open>New\<close>) is itself named \<^verbatim>\<open>Sheet1\<close>,
  its \<^verbatim>\<open>NewSheet\<close> finds the placeholder and the workbook still has exactly one sheet, so
  nothing is deleted, whatever the calls answer and however many sheets follow. When
  moreover no call, hook or pull fails, the rows of that sheet are written under the name
  \<^verbatim>\<open>Sheet1\<close>, in both strategies, and the workbook ends with the placeholder as its only
  sheet: the rows are in the original default sheet.
\<close>

theorem placeholder_deletion_names_Sheet1:
  assumes "Name sheet = ''Sheet1''"
  shows
    "set (deleted (File (snd (Export b' fuel' sheets' e')))) \<subseteq> set (deleted (File e')) \<union> {''Sheet1''}
     \<and> SheetCount (counting_sheets b)
           (File (New fileName useStreamWriter) @ [(File_NewSheet (Name sheet), None)]) = 1
     \<and> deleted (File (snd (Export (counting_sheets b) fuel (sheet # rest)
                              (New fileName useStreamWriter)))) = []
     \<and> (never_fails b \<and> hook_never_fails sheet \<and> feeds sheet rowf n \<and> int n \<le> SheetMaxRows \<and> n < fuel
          \<longrightarrow>
        Export (counting_sheets b) fuel [sheet] (New fileName False) =
           (Returned None,
            \<lparr>File = [(File_NewSheet ''Sheet1'', None)]
                    @ hook_entry sheet ''Sheet1''
                    @ rows_log (buffered_calls b ''Sheet1'') rowf 1 0 n
                    @ [(RowFunc_call (int n), None), (File_SaveAs fileName, None), (File_Close, None)],
             FileName = fileName, CurrentSheet = ''Sheet1'', UseStreamWriter = False,
             StreamWriter = None\<rparr>)
        \<and> workbook_sheets (File (snd (Export (counting_sheets b) fuel [sheet] (New fileName False)))) =
            [''Sheet1'']
        \<and> Export (counting_sheets b) fuel [sheet] (New fileName True) =
           (Returned None,
            \<lparr>File = [(File_NewSheet ''Sheet1'', None), (File_NewStreamWriter ''Sheet1'', None)]
                    @ hook_entry sheet ''Sheet1''
                    @ rows_log (stream_row_calls b 1) rowf 1 0 n
                    @ [(RowFunc_call (int n), None), (Stream_Flush 1, None),
                       (File_SaveAs fileName, None), (File_Close, None)],
             FileName = fileName, CurrentSheet = ''Sheet1'', UseStreamWriter = True,
             StreamWriter = Some 1\<rparr>)
        \<and> workbook_sheets (File (snd (Export (counting_sheets b) fuel [sheet] (New fileName True)))) =
            [''Sheet1''])"
proof (intro conjI impI; (elim conjE)?)
  show "set (deleted (File (snd (Export b' fuel' sheets' e')))) \<subseteq> set (deleted (File e')) \<union> {''Sheet1''}"
    using Export_calls [of b' fuel' sheets' e'] by (auto split: list.splits if_splits)
  show count: "SheetCount (counting_sheets b)
      (File (New fileName useStreamWriter) @ [(File_NewSheet (Name sheet), None)]) = 1"
    using fresh_count_Sheet1 [of b fileName useStreamWriter] assms by simp
  show "deleted (File (snd (Export (counting_sheets b) fuel (sheet # rest)
      (New fileName useStreamWriter)))) = []"
    using Export_calls [of "counting_sheets b" fuel "sheet # rest" "New fileName useStreamWriter"] count
    by (simp add: New_def deleted_def)
next
  assume run: "never_fails b" "hook_never_fails sheet" "feeds sheet rowf n" "int n \<le> SheetMaxRows"
    "n < fuel"
  note mem = fresh_Sheet1_mem [OF assms run, of fileName]
  note stream = fresh_Sheet1_stream [OF assms run, of fileName]
  show "Export (counting_sheets b) fuel [sheet] (New fileName False) =
           (Returned None,
            \<lparr>File = [(File_NewSheet ''Sheet1'', None)]
                    @ hook_entry sheet ''Sheet1''
                    @ rows_log (buffered_calls b ''Sheet1'') rowf 1 0 n
                    @ [(RowFunc_call (int n), None), (File_SaveAs fileName, None), (File_Close, None)],
             FileName = fileName, CurrentSheet = ''Sheet1'', UseStreamWriter = False,
             StreamWriter = None\<rparr>)"
    by (rule mem)
  show "workbook_sheets (File (snd (Export (counting_sheets b) fuel [sheet] (New fileName False)))) =
      [''Sheet1'']"
    unfolding mem using written_sheets_mem [of sheet b rowf n fileName] by simp
  show "Export (counting_sheets b) fuel [sheet] (New fileName True) =
           (Returned None,
            \<lparr>File = [(File_NewSheet ''Sheet1'', None), (File_NewStreamWriter ''Sheet1'', None)]
                    @ hook_entry sheet ''Sheet1''
                    @ rows_log (stream_row_calls b 1) rowf 1 0 n
                    @ [(RowFunc_call (int n), None), (Stream_Flush 1, None),
                       (File_SaveAs fileName, None), (File_Close, None)],
             FileName = fileName, CurrentSheet = ''Sheet1'', UseStreamWriter = True,
             StreamWriter = Some 1\<rparr>)"
    by (rule stream)
  show "workbook_sheets (File (snd (Export (counting_sheets b) fuel [sheet] (New fileName True)))) =
      [''Sheet1'']"
    unfolding stream using written_sheets_stream [of sheet b 1 rowf n fileName] by simp
qed

theorem placeholder_deletion_names_Sheet1_witness:
  "Name (example_sheet ''Sheet1'' example_row 1) = ''Sheet1''
   \<and> SheetCount (counting_sheets example_backend)
        (File (New ''out.xlsx'' False :: (int, unit) Exporter) @ [(File_NewSheet ''Sheet1'', None)]) = 1
   \<and> deleted (File (snd (Export (counting_sheets example_backend) 3
                           [example_sheet ''Sheet1'' example_row 1, example_sheet ''more'' example_row 1]
                           (New ''out.xlsx'' False)))) = []
   \<and> Export (counting_sheets example_backend) 3 [example_sheet ''Sheet1'' example_row 1]
        (New ''out.xlsx'' False) =
       (Returned None,
        \<lparr>File = [(File_NewSheet ''Sheet1'', None), (RowFunc_call 0, None),
                 (File_SetCellValue ''Sheet1'' ''1,1'' 7, None), (RowFunc_call 1, None),
                 (File_SaveAs ''out.xlsx'', None), (File_Close, None)],
         FileName = ''out.xlsx'', CurrentSheet = ''Sheet1'', UseStreamWriter = False,
         StreamWriter = None\<rparr>)
   \<and> workbook_sheets (File (snd (Export (counting_sheets example_backend) 3
                                    [example_sheet ''Sheet1'' example_row 1]
                                    (New ''out.xlsx'' False)))) = [''Sheet1'']"
proof -
  let ?sheet = "example_sheet ''Sheet1'' example_row 1"
  have name: "Name ?sheet = ''Sheet1''"
    by (simp add: example_sheet_def)
  have nf: "never_fails example_backend"
    by (simp add: never_fails_def example_backend_def)
  have present: "Cells example_row \<noteq> None"
    by (simp add: example_row_def)
  have one: "int 1 \<le> SheetMaxRows" "(1::nat) < 3"
    using SheetMaxRows_bounds by simp_all
  have row: "rows_log (buffered_calls example_backend ''Sheet1'') (\<lambda>i. example_row) 1 0 (Suc 0) =
      [(RowFunc_call 0, None), (File_SetCellValue ''Sheet1'' ''1,1'' 7, None)]"
    by (simp add: rows_log_def ok_def buffered_calls_def buffered_row_calls_def buffered_cell_calls_def
          cells_of_def example_row_def example_backend_def decimal.simps digit_char_def)
  note inst = placeholder_deletion_names_Sheet1 [where sheet = ?sheet and b = example_backend
      and fileName = "''out.xlsx''" and useStreamWriter = False and fuel = 3
      and rest = "[example_sheet ''more'' example_row 1]"
      and rowf = "\<lambda>i. example_row" and n = 1 and b' = example_backend and fuel' = 0
      and sheets' = "[]" and e' = "New ''out.xlsx'' False", OF name]
  show ?thesis
    using inst nf example_sheet_hook [of "''Sheet1''" example_row 1]
      example_sheet_feeds [OF present, of "''Sheet1''" 1] one
    by (simp add: example_sheet_no_hook row example_sheet_Name workbook_sheets_def workbook_step_def
        EqualFold_def)
qed

section \<open>The row index\<close>

text \<open>
  C8. In the run of one sheet, by either strategy, with fewer than \<open>2^63\<close> units of fuel
  (so that the 64-bit counter does not wrap), the pulls carry the indices \<open>0, 1, 2, ...\<close>
  in this order, whatever the row numbers and the splits, and no pull follows a pull that
  the row source answered with the sentinel.
\<close>

theorem pulls_count_from_zero_and_stop_at_the_sentinel:
  assumes "(if UseStreamWriter e then exportUsingStreamWriter b fuel sheet e
            else exportUsingMemory b fuel sheet e) = (st, e')"
    and "int fuel < 2 ^ 63"
  shows "\<exists>evs n. File e' = File e @ evs \<and> n \<le> fuel \<and> pulled evs = map int [0..<n] \<and>
           (\<forall>pre i r post.
              evs = pre @ (RowFunc_call i, r) # post \<and> is_sentinel (RowFunc sheet (File e @ pre) i)
              \<longrightarrow> pulled post = [])"
proof -
  obtain evs n where evs: "File e' = File e @ evs" "n \<le> fuel" "pulled evs = map int [0..<n]"
      "sentinel_last sheet (File e) evs"
    using strategy_pulls [OF assms] by blast
  have "pulled post = []"
    if "evs = pre @ (RowFunc_call i, r) # post" "is_sentinel (RowFunc sheet (File e @ pre) i)"
    for pre i r post
    using sentinel_last_decompose [OF evs(4) that] .
  then show ?thesis
    using evs(1,2,3) by blast
qed

theorem pulls_count_from_zero_and_stop_at_the_sentinel_witness:
  "pulled (File (snd (exportUsingMemory example_backend 5 (example_sheet ''data'' example_row 2)
                        (New ''out.xlsx'' False)))) = [0, 1, 2]
   \<and> (\<exists>evs n. File (snd (exportUsingMemory example_backend 5 (example_sheet ''data'' example_row 2)
                           (New ''out.xlsx'' False))) = evs \<and> n \<le> 5 \<and> pulled evs = map int [0..<n] \<and>
           (\<forall>pre i r post.
              evs = pre @ (RowFunc_call i, r) # post \<and>
              is_sentinel (RowFunc (example_sheet ''data'' example_row 2) pre i)
              \<longrightarrow> pulled post = []))"
proof -
  let ?sheet = "example_sheet ''data'' example_row 2"
  let ?e = "New ''out.xlsx'' False :: (int, unit) Exporter"
  obtain st e' where run: "exportUsingMemory example_backend 5 ?sheet ?e = (st, e')"
    by force
  have present: "Cells example_row \<noteq> None"
    by (simp add: example_row_def)
  have two: "int 2 \<le> SheetMaxRows"
    using SheetMaxRows_bounds by (simp add: SheetMaxRows_def)
  have "pulled (File (snd (exportUsingMemory example_backend 5 ?sheet ?e))) = [0, 1, 2]"
    using mem_no_split [OF example_backend_never_fails example_sheet_hook
        example_sheet_feeds [OF present] two, of 5 "''data''" ?e]
    by (simp add: New_def example_sheet_no_hook example_sheet_Name numeral_2_eq_2 rows_log_Suc
          pulled_def ok_def buffered_calls_def buffered_row_calls_def buffered_cell_calls_def
          cells_of_def example_row_def)
  moreover have "\<exists>evs n. File e' = File ?e @ evs \<and> n \<le> 5 \<and> pulled evs = map int [0..<n] \<and>
           (\<forall>pre i r post.
              evs = pre @ (RowFunc_call i, r) # post \<and> is_sentinel (RowFunc ?sheet (File ?e @ pre) i)
              \<longrightarrow> pulled post = [])"
    using pulls_count_from_zero_and_stop_at_the_sentinel [of ?e example_backend 5 ?sheet st e'] run
    by (simp add: New_def)
  ultimately show ?thesis
    using run by (simp add: New_def)
qed

section \<open>Errors abort the export\<close>

text \<open>
  C9. In a run of \<^verbatim>\<open>Export\<close> that returned, either no call failed and \<^verbatim>\<open>Export\<close> returned
  nil (after \<^verbatim>\<open>SaveAs\<close>), or exactly one call failed, whatever its stage (sheet creation
  or deletion, hook, pull, cell, merge or stream call, flush, save): it is the last call
  before the deferred \<^verbatim>\<open>Close\<close>, so nothing is pulled, written or created after it, and
  \<^verbatim>\<open>Export\<close> returned its error, as it is or wrapped once. A run that is still going has
  seen no call fail. The error of the deferred \<^verbatim>\<open>Close\<close> itself is dropped.
\<close>

theorem any_error_aborts_the_export:
  assumes "Export b fuel sheets e = (st, e')"
  shows "case st of
           OutOfFuel \<Rightarrow> \<exists>evs. File e' = File e @ evs \<and> clean evs
         | Returned None \<Rightarrow> \<exists>evs rc. File e' = File e @ evs @ [(File_Close, rc)] \<and> clean evs
         | Returned (Some err') \<Rightarrow>
             \<exists>pre c err rc. File e' = File e @ pre @ [(c, Some err), (File_Close, rc)] \<and> clean pre \<and>
               (err' = err \<or> (\<exists>msg. err' = Errorf msg err))"
  using assms
proof (cases rule: Export_cases)
  case out_of_fuel
  then show ?thesis
    using ran_Export_loop [OF out_of_fuel(1)] by (auto simp: ran_def outcome_ok_def)
next
  case (failed err' e1)
  obtain pre c err where "File e1 = File e @ pre @ [(c, Some err)]" "clean pre"
      "err' = err \<or> (\<exists>msg. err' = Errorf msg err)"
    using ran_Export_loop [OF failed(1)] by (auto simp: ran_def outcome_ok_def failed_with_def)
  then show ?thesis
    using failed(2,3) by (auto simp: invoke_eq)
next
  case (saved e1 r e2)
  have loop: "ran None e e1"
    using ran_Export_loop [OF saved(1)] by simp
  have "ran r e e2"
    using ran_seq [OF loop ran_invoke [OF saved(2)]] .
  then show ?thesis
  proof (cases r)
    case None
    then show ?thesis
      using \<open>ran r e e2\<close> saved(3,4) by (auto simp: ran_def outcome_ok_def invoke_eq)
  next
    case (Some err')
    then obtain pre c err where "File e2 = File e @ pre @ [(c, Some err)]" "clean pre"
        "err' = err \<or> (\<exists>msg. err' = Errorf msg err)"
      using \<open>ran r e e2\<close> by (auto simp: ran_def outcome_ok_def failed_with_def)
    then show ?thesis
      using saved(3,4) Some by (auto simp: invoke_eq)
  qed
qed

theorem any_error_aborts_the_export_witness:
  "Export picky_backend 2 [example_sheet ''data'' example_row 1, example_sheet ''bad:name'' example_row 1]
     (New ''out.xlsx'' False) =
   (Returned (Some (Errorf ''failed to create a new sheet'' (Error ''invalid sheet name''))),
    \<lparr>File = [(File_NewSheet ''data'', None), (RowFunc_call 0, None),
             (File_SetCellValue ''data'' ''1,1'' 7, None), (RowFunc_call 1, None),
             (File_NewSheet ''bad:name'', Some (Error ''invalid sheet name'')), (File_Close, None)],
     FileName = ''out.xlsx'', CurrentSheet = ''data'', UseStreamWriter = False, StreamWriter = None\<rparr>)
   \<and> (\<exists>pre c err rc.
         [(File_NewSheet ''data'', None), (RowFunc_call 0, None),
          (File_SetCellValue ''data'' ''1,1'' 7, None), (RowFunc_call 1, None),
          (File_NewSheet ''bad:name'', Some (Error ''invalid sheet name'')), (File_Close, None)] =
         pre @ [(c, Some err), (File_Close, rc)] \<and> clean pre \<and>
         (Errorf ''failed to create a new sheet'' (Error ''invalid sheet name'') = err \<or>
          (\<exists>msg. Errorf ''failed to create a new sheet'' (Error ''invalid sheet name'') = Errorf msg err)))"
  using any_error_aborts_the_export [OF picky_run] picky_run by (simp add: New_def)

section \<open>Flush before switching streams and before saving\<close>

text \<open>
  C4. In a streaming export the \<^verbatim>\<open>StreamWriter\<close> field is the writer that the last
  \<^verbatim>\<open>NewStreamWriter\<close> call returned; every \<^verbatim>\<open>NewStreamWriter\<close> call made while a writer is
  in force (at the first sheet of a later spec, at a split) comes right after a successful
  \<^verbatim>\<open>Flush\<close> of that writer; and when there is at least one sheet, \<^verbatim>\<open>SaveAs\<close> comes right
  after a successful \<^verbatim>\<open>Flush\<close> of the writer in force.
\<close>

theorem streams_are_flushed_before_switching_and_saving:
  assumes "UseStreamWriter e" and "Export b fuel sheets e = (st, e')"
  shows "\<exists>evs. File e' = File e @ evs \<and>
           StreamWriter e' = writer_after (length (File e)) (StreamWriter e) evs \<and>
           (\<forall>pre n r post.
              evs = pre @ (File_NewStreamWriter n, r) # post \<longrightarrow>
              (case writer_after (length (File e)) (StreamWriter e) pre of
                 None \<Rightarrow> True
               | Some h \<Rightarrow> pre \<noteq> [] \<and> last pre = (Stream_Flush h, None))) \<and>
           (\<forall>pre p r post.
              sheets \<noteq> [] \<and> evs = pre @ (File_SaveAs p, r) # post \<longrightarrow>
              (\<exists>h. writer_after (length (File e)) (StreamWriter e) pre = Some h \<and>
                   pre \<noteq> [] \<and> last pre = (Stream_Flush h, None)))"
proof -
  let ?k = "length (File e)" and ?w = "StreamWriter e"
  obtain e1 st1 where loop: "Export_loop b fuel 0 sheets e = (st1, e1)"
    by force
  obtain evs1 where evs1: "File e1 = File e @ evs1" "StreamWriter e1 = writer_after ?k ?w evs1"
      "flushed_before_switch ?k ?w False evs1"
    using tracks_Export_loop [OF loop] unfolding tracks_def by blast
  have no_save: "list_all (\<lambda>y. fst y \<noteq> File_SaveAs p) evs1" for p
  proof -
    have "grows (\<lambda>c. c \<noteq> File_SaveAs p) e e1"
      by (rule grows_Export_loop [OF _ _ loop]) auto
    then show ?thesis
      using evs1(1) by (auto simp: grows_def)
  qed
  have name: "FileName e1 = FileName e"
    using grows_Export_loop [of "\<lambda>c. True", OF _ _ loop] by (auto simp: grows_def)
  obtain evs2 where evs2: "File e' = File e1 @ evs2" "StreamWriter e' = StreamWriter e1"
      "list_all (\<lambda>x. quiet_call (fst x)) evs2"
      "evs2 = [] \<or> (\<exists>rc. evs2 = [(File_Close, rc)]) \<or>
       (st1 = Returned None \<and> (\<exists>rs rc. evs2 = [(File_SaveAs (FileName e1), rs), (File_Close, rc)]))"
    using assms(2)
  proof (cases rule: Export_cases)
    case out_of_fuel
    then show ?thesis
      using that [of "[]"] loop by simp
  next
    case (failed err e0)
    then show ?thesis
      using that [of "[(File_Close, respond b (File e1) File_Close)]"] loop by (simp add: invoke_eq)
  next
    case (saved e0 r e2)
    then show ?thesis
      using that [of "[(File_SaveAs (FileName e1), r),
            (File_Close, respond b (File e1 @ [(File_SaveAs (FileName e1), r)]) File_Close)]"] loop
      by (auto simp: invoke_eq)
  qed
  let ?evs = "evs1 @ evs2"
  have hist: "File e' = File e @ ?evs"
    using evs1(1) evs2(1) by simp
  have writer: "StreamWriter e' = writer_after ?k ?w ?evs"
    using evs1(2) evs2(2,3) by (simp add: writer_after_append quiet_writer_after)
  have disc: "flushed_before_switch ?k ?w False ?evs"
    using evs1(3) quiet_flushed_before_switch [OF evs2(3)] by (rule flushed_before_switch_append)
  have switch: "case writer_after ?k ?w pre of None \<Rightarrow> True
      | Some h \<Rightarrow> pre \<noteq> [] \<and> last pre = (Stream_Flush h, None)"
    if "?evs = pre @ (File_NewStreamWriter n, r) # post" for pre n r post
    using flushed_before_switch_decompose [OF disc [unfolded that]]
    by (auto split: option.splits if_splits)
  have save: "\<exists>h. writer_after ?k ?w pre = Some h \<and> pre \<noteq> [] \<and> last pre = (Stream_Flush h, None)"
    if ne: "sheets \<noteq> []" and dec: "?evs = pre @ (File_SaveAs p, r) # post" for pre p r post
  proof -
    have "\<not> list_all (\<lambda>y. fst y \<noteq> File_SaveAs p) ?evs"
      using dec by simp
    then obtain rs rc where tail: "evs2 = [(File_SaveAs (FileName e1), rs), (File_Close, rc)]"
        and st1: "st1 = Returned None" and p: "p = FileName e1"
      using evs2(4) no_save [of p] by auto
    have "pre = evs1"
      using unique_call_decompose [OF no_save [of p], of pre r post rs "[(File_Close, rc)]"] dec tail p
      by simp
    moreover obtain h where "StreamWriter e1 = Some h" "File e1 \<noteq> []"
        "last (File e1) = (Stream_Flush h, None)"
      using Export_loop_ends_flushed [OF loop [unfolded st1] ne assms(1)] by blast
    moreover have "evs1 \<noteq> []"
    proof -
      obtain sheet rest where "sheets = sheet # rest"
        using ne by (cases sheets) auto
      then show ?thesis
        using Export_loop_first [of b fuel sheet rest e st1 e1] loop evs1(1) by auto
    qed
    ultimately show ?thesis
      using evs1(1,2) by auto
  qed
  show ?thesis
    using hist writer switch save by blast
qed

theorem streams_are_flushed_before_switching_and_saving_witness:
  "Export example_backend 2 [example_sheet ''a'' example_row 1, example_sheet ''b'' example_row 1]
     (New ''out.xlsx'' True) =
   (Returned None,
    \<lparr>File =
       [(File_NewSheet ''a'', None), (File_NewStreamWriter ''a'', None), (RowFunc_call 0, None),
        (Stream_SetRow 1 ''1,1'' [\<lparr>Value = 7, StyleID = 0, Formula = []\<rparr>] [], None),
        (RowFunc_call 1, None), (Stream_Flush 1, None),
        (File_NewSheet ''b'', None), (Stream_Flush 1, None), (File_NewStreamWriter ''b'', None),
        (RowFunc_call 0, None),
        (Stream_SetRow 8 ''1,1'' [\<lparr>Value = 7, StyleID = 0, Formula = []\<rparr>] [], None),
        (RowFunc_call 1, None), (Stream_Flush 8, None),
        (File_SaveAs ''out.xlsx'', None), (File_Close, None)],
     FileName = ''out.xlsx'', CurrentSheet = ''b'', UseStreamWriter = True, StreamWriter = Some 8\<rparr>)
   \<and> (\<exists>evs.
        File (snd (Export example_backend 2
                     [example_sheet ''a'' example_row 1, example_sheet ''b'' example_row 1]
                     (New ''out.xlsx'' True))) =
          File (New ''out.xlsx'' True) @ evs \<and>
        StreamWriter (snd (Export example_backend 2
                            [example_sheet ''a'' example_row 1, example_sheet ''b'' example_row 1]
                            (New ''out.xlsx'' True))) =
          writer_after (length (File (New ''out.xlsx'' True :: (int, unit) Exporter)))
            (StreamWriter (New ''out.xlsx'' True :: (int, unit) Exporter)) evs \<and>
        (\<forall>pre n r post.
           evs = pre @ (File_NewStreamWriter n, r) # post \<longrightarrow>
           (case writer_after (length (File (New ''out.xlsx'' True :: (int, unit) Exporter)))
                   (StreamWriter (New ''out.xlsx'' True :: (int, unit) Exporter)) pre of
              None \<Rightarrow> True
            | Some h \<Rightarrow> pre \<noteq> [] \<and> last pre = (Stream_Flush h, None))) \<and>
        (\<forall>pre p r post.
           [example_sheet ''a'' example_row 1, example_sheet ''b'' example_row 1] \<noteq> [] \<and>
           evs = pre @ (File_SaveAs p, r) # post \<longrightarrow>
           (\<exists>h. writer_after (length (File (New ''out.xlsx'' True :: (int, unit) Exporter)))
                  (StreamWriter (New ''out.xlsx'' True :: (int, unit) Exporter)) pre = Some h \<and>
                pre \<noteq> [] \<and> last pre = (Stream_Flush h, None))))"
proof -
  have stream: "UseStreamWriter (New ''out.xlsx'' True :: (int, unit) Exporter)"
    by (simp add: New_def)
  show ?thesis
    by (intro conjI two_streamed_sheets
          streams_are_flushed_before_switching_and_saving [OF stream prod.collapse [symmetric]])
qed

section \<open>The channel adapter: producer and caller interleaved\<close>

subsection \<open>Single steps on explicit states\<close>

lemma step_first_call:
  "step p (\<lparr>once_done = False, dataCh = None, sendErr = None, goroutine = NotStarted\<rparr>, Idle) None
     (\<lparr>once_done = True, dataCh = Some Open, sendErr = None, goroutine = Sending (emits p)\<rparr>, Receiving)"
  using first_call [of "\<lparr>once_done = False, dataCh = None, sendErr = None, goroutine = NotStarted\<rparr>" p]
  by simp

lemma step_later_call:
  "step p (\<lparr>once_done = True, dataCh = ch, sendErr = se, goroutine = g\<rparr>, Idle) None
     (\<lparr>once_done = True, dataCh = ch, sendErr = se, goroutine = g\<rparr>, Receiving)"
  by (rule later_call) simp

lemma step_rendezvous:
  "step p (\<lparr>once_done = d, dataCh = Some Open, sendErr = se, goroutine = Sending (row # rows)\<rparr>, Receiving)
     None
     (\<lparr>once_done = d, dataCh = Some Open, sendErr = se, goroutine = Sending rows\<rparr>, Checking row True)"
  using rendezvous [of "\<lparr>once_done = d, dataCh = Some Open, sendErr = se,
      goroutine = Sending (row # rows)\<rparr>" row rows p]
  by simp

lemma step_return_row:
  "step p (\<lparr>once_done = d, dataCh = ch, sendErr = None, goroutine = g\<rparr>, Checking row True)
     (Some (Inr row)) (\<lparr>once_done = d, dataCh = ch, sendErr = None, goroutine = g\<rparr>, Idle)"
  using return [of p "\<lparr>once_done = d, dataCh = ch, sendErr = None, goroutine = g\<rparr>" row True]
  by simp

lemma step_return_error:
  "step p (\<lparr>once_done = d, dataCh = ch, sendErr = Some err, goroutine = g\<rparr>, Checking row okay)
     (Some (Inl err)) (\<lparr>once_done = d, dataCh = ch, sendErr = Some err, goroutine = g\<rparr>, Idle)"
  using return [of p "\<lparr>once_done = d, dataCh = ch, sendErr = Some err, goroutine = g\<rparr>" row okay]
  by simp

lemma step_producer_returns:
  "step p (\<lparr>once_done = d, dataCh = ch, sendErr = se, goroutine = Sending []\<rparr>, c) None
     (\<lparr>once_done = d, dataCh = ch, sendErr = result p, goroutine = Assigned\<rparr>, c)"
  using producer_returns [of "\<lparr>once_done = d, dataCh = ch, sendErr = se, goroutine = Sending []\<rparr>" p c]
  by simp

lemma step_producer_closes:
  "step p (\<lparr>once_done = d, dataCh = ch, sendErr = se, goroutine = Assigned\<rparr>, c) None
     (\<lparr>once_done = d, dataCh = Some Closed, sendErr = se, goroutine = Exited\<rparr>, c)"
  using producer_closes [of "\<lparr>once_done = d, dataCh = ch, sendErr = se, goroutine = Assigned\<rparr>" p c]
  by simp

lemma step_receive_closed:
  "step p (\<lparr>once_done = d, dataCh = Some Closed, sendErr = se, goroutine = g\<rparr>, Receiving) None
     (\<lparr>once_done = d, dataCh = Some Closed, sendErr = se, goroutine = g\<rparr>, Checking Row_zero False)"
  by (rule receive_closed) simp

lemma step_return_end:
  "step p (\<lparr>once_done = d, dataCh = ch, sendErr = None, goroutine = g\<rparr>, Checking row False)
     (Some (Inr Row_zero)) (\<lparr>once_done = d, dataCh = ch, sendErr = None, goroutine = g\<rparr>, Idle)"
  using return [of p "\<lparr>once_done = d, dataCh = ch, sendErr = None, goroutine = g\<rparr>" row False]
  by simp

lemma pull_first_row:
  assumes "emits p = row # rows"
  shows "run p (UseRowChan, Idle) [Inr row]
           (\<lparr>once_done = True, dataCh = Some Open, sendErr = None, goroutine = Sending rows\<rparr>, Idle)"
  unfolding UseRowChan_def
  using run_silent [OF step_first_call [of p], unfolded assms,
      OF run_silent [OF step_rendezvous run_return [OF step_return_row run_stop]]] .

lemma pull_next_row:
  "run p (\<lparr>once_done = True, dataCh = Some Open, sendErr = None, goroutine = Sending (row # rows)\<rparr>, Idle)
     [Inr row]
     (\<lparr>once_done = True, dataCh = Some Open, sendErr = None, goroutine = Sending rows\<rparr>, Idle)"
  by (rule run_silent [OF step_later_call
        run_silent [OF step_rendezvous run_return [OF step_return_row run_stop]]])

lemma run_append:
  "run p cfg rs cfg' \<Longrightarrow> run p cfg' rs' cfg'' \<Longrightarrow> run p cfg (rs @ rs') cfg''"
  by (induction rule: run.induct) (auto intro: run.intros)

subsection \<open>The goroutine determines the closure variables\<close>

lemma consistent_UseRowChan: "consistent p UseRowChan"
  by (simp add: consistent_def UseRowChan_def)

lemma step_consistent:
  assumes "step p (s, c) l (s', c')" and "consistent p s"
  shows "consistent p s'"
  using assms by (cases rule: step.cases) (auto simp add: consistent_def split: goroutine.splits)

lemma run_consistent:
  assumes "run p cfg rs cfg'" and "consistent p (fst cfg)"
  shows "consistent p (fst cfg')"
  using assms
proof (induction rule: run.induct)
  case (run_stop cfg)
  then show ?case .
next
  case (run_silent cfg cfg' rs cfg'')
  then show ?case
    using step_consistent [of p "fst cfg" "snd cfg" None "fst cfg'" "snd cfg'"] by simp
next
  case (run_return cfg r cfg' rs cfg'')
  then show ?case
    using step_consistent [of p "fst cfg" "snd cfg" "Some r" "fst cfg'" "snd cfg'"] by simp
qed

lemma closed_consistent:
  assumes "consistent p s" and "dataCh s = Some Closed"
  shows "goroutine s = Exited" and "once_done s" and "sendErr s = result p"
  using assms by (auto simp add: consistent_def split: goroutine.splits)

lemma closed_step:
  assumes "step p (s, c) l (s', c')" and "consistent p s" and "dataCh s = Some Closed"
    and "\<not> holds_row c"
  shows "s' = s \<and> \<not> holds_row c' \<and> (l = None \<or> l = Some (after_close p))"
  using assms(1) closed_consistent [OF assms(2,3)] assms(3,4)
  by (cases rule: step.cases) (auto simp add: after_close_def split: option.splits)

lemma closed_run:
  assumes "run p cfg rs cfg'" and "consistent p (fst cfg)" and "dataCh (fst cfg) = Some Closed"
    and "\<not> holds_row (snd cfg)"
  shows "fst cfg' = fst cfg \<and> \<not> holds_row (snd cfg') \<and> rs = replicate (length rs) (after_close p)"
  using assms
proof (induction rule: run.induct)
  case (run_stop cfg)
  then show ?case by simp
next
  case (run_silent cfg cfg' rs cfg'')
  from closed_step [of p "fst cfg" "snd cfg" None "fst cfg'" "snd cfg'"] run_silent.hyps(1)
    run_silent.prems
  have "fst cfg' = fst cfg" and "\<not> holds_row (snd cfg')"
    by simp_all
  with run_silent.IH run_silent.prems show ?case
    by simp
next
  case (run_return cfg r cfg' rs cfg'')
  from closed_step [of p "fst cfg" "snd cfg" "Some r" "fst cfg'" "snd cfg'"] run_return.hyps(1)
    run_return.prems
  have "fst cfg' = fst cfg" and "\<not> holds_row (snd cfg')" and "r = after_close p"
    by simp_all
  with run_return.IH run_return.prems show ?case
    by simp
qed

lemma closed_pull:
  assumes "consistent p s" and "dataCh s = Some Closed" and "\<not> holds_row c"
  shows "run p (s, c) [after_close p] (s, Idle)"
proof -
  note facts = closed_consistent [OF assms(1,2)]
  have ret: "step p (s, Checking row False) (Some (after_close p)) (s, Idle)" for row
    using return [of p s row False] facts(3) by (simp add: after_close_def split: option.splits)
  have recv: "step p (s, Receiving) None (s, Checking Row_zero False)"
    using assms(2) by (rule receive_closed)
  have call: "step p (s, Idle) None (s, Receiving)"
    using facts(2) by (rule later_call)
  show ?thesis
  proof (cases c)
    case Idle
    then show ?thesis
      using run_silent [OF call run_silent [OF recv run_return [OF ret run_stop]]] by simp
  next
    case Receiving
    then show ?thesis
      using run_silent [OF recv run_return [OF ret run_stop]] by simp
  next
    case (Checking row okay)
    then show ?thesis
      using assms(3) run_return [OF ret run_stop] by simp
  qed
qed

lemma after_close_sentinel: "result p = None \<Longrightarrow> is_sentinel (after_close p)"
  by (simp add: after_close_def is_sentinel_def Row_zero_def)

lemma after_close_error: "result p = Some err \<Longrightarrow> after_close p = Inl err"
  by (simp add: after_close_def)

subsection \<open>A producer that sends three rows and fails\<close>

text \<open>
  With the goroutine scheduled only when the caller is blocked in a receive, the calls
  return the three rows and then the error.
\<close>

lemma UseRowChan_intended_run:
  "run \<lparr>emits = [r0, r1, r2], result = Some err\<rparr> (UseRowChan, Idle)
     [Inr r0, Inr r1, Inr r2, Inl err]
     (\<lparr>once_done = True, dataCh = Some Closed, sendErr = Some err, goroutine = Exited\<rparr>, Idle)"
proof -
  let ?p = "\<lparr>emits = [r0, r1, r2], result = Some err\<rparr>"
  have first: "run ?p (UseRowChan, Idle) [Inr r0]
      (\<lparr>once_done = True, dataCh = Some Open, sendErr = None, goroutine = Sending [r1, r2]\<rparr>, Idle)"
    by (rule pull_first_row) simp
  have second: "run ?p
      (\<lparr>once_done = True, dataCh = Some Open, sendErr = None, goroutine = Sending [r1, r2]\<rparr>, Idle)
      [Inr r1]
      (\<lparr>once_done = True, dataCh = Some Open, sendErr = None, goroutine = Sending [r2]\<rparr>, Idle)"
    by (rule pull_next_row)
  have third: "run ?p
      (\<lparr>once_done = True, dataCh = Some Open, sendErr = None, goroutine = Sending [r2]\<rparr>, Idle)
      [Inr r2]
      (\<lparr>once_done = True, dataCh = Some Open, sendErr = None, goroutine = Sending []\<rparr>, Idle)"
    by (rule pull_next_row)
  have fourth: "run ?p
      (\<lparr>once_done = True, dataCh = Some Open, sendErr = None, goroutine = Sending []\<rparr>, Idle)
      [Inl err]
      (\<lparr>once_done = True, dataCh = Some Closed, sendErr = Some err, goroutine = Exited\<rparr>, Idle)"
    using run_silent [OF step_later_call
        run_silent [OF step_producer_returns [where p = ?p, simplified]
          run_silent [OF step_producer_closes
            run_silent [OF step_receive_closed
              run_return [OF step_return_error run_stop]]]]]
    by simp
  show ?thesis
    using run_append [OF run_append [OF run_append [OF first second] third] fourth] by simp
qed

text \<open>
  Claim C3: a producer that sends \<open>r0\<close>, \<open>r1\<close>, \<open>r2\<close> and then returns an error is pulled as
  \<open>r0\<close>, \<open>r1\<close>, \<open>r2\<close> and then the error, no row dropped. The code does not guarantee it.
  The caller reads \<^verbatim>\<open>sendErr\<close> after every receive and before it looks at \<^verbatim>\<open>ok\<close>; nothing
  orders that read after the goroutine's store. In the run below the third call receives
  \<open>r2\<close>, the goroutine then returns from the producer function and stores the error, and the
  caller, reading \<^verbatim>\<open>sendErr\<close>, returns the error in place of \<open>r2\<close>: the calls return \<open>r0\<close>,
  \<open>r1\<close> and the error, and \<open>r2\<close> is lost. The channel is still open at that point.
\<close>

theorem UseRowChan_can_return_the_error_in_place_of_the_last_row:
  "run \<lparr>emits = [r0, r1, r2], result = Some err\<rparr> (UseRowChan, Idle) [Inr r0, Inr r1, Inl err]
     (\<lparr>once_done = True, dataCh = Some Open, sendErr = Some err, goroutine = Assigned\<rparr>, Idle)"
proof -
  let ?p = "\<lparr>emits = [r0, r1, r2], result = Some err\<rparr>"
  have first: "run ?p (UseRowChan, Idle) [Inr r0]
      (\<lparr>once_done = True, dataCh = Some Open, sendErr = None, goroutine = Sending [r1, r2]\<rparr>, Idle)"
    by (rule pull_first_row) simp
  have second: "run ?p
      (\<lparr>once_done = True, dataCh = Some Open, sendErr = None, goroutine = Sending [r1, r2]\<rparr>, Idle)
      [Inr r1]
      (\<lparr>once_done = True, dataCh = Some Open, sendErr = None, goroutine = Sending [r2]\<rparr>, Idle)"
    by (rule pull_next_row)
  have third: "run ?p
      (\<lparr>once_done = True, dataCh = Some Open, sendErr = None, goroutine = Sending [r2]\<rparr>, Idle)
      [Inl err]
      (\<lparr>once_done = True, dataCh = Some Open, sendErr = Some err, goroutine = Assigned\<rparr>, Idle)"
    using run_silent [OF step_later_call
        run_silent [OF step_rendezvous
          run_silent [OF step_producer_returns [where p = ?p, simplified]
            run_return [OF step_return_error run_stop]]]]
    by simp
  show ?thesis
    using run_append [OF run_append [OF first second] third] by simp
qed

subsection \<open>Calls after the channel is closed\<close>

lemma empty_producer_run:
  "run \<lparr>emits = [], result = res\<rparr> (UseRowChan, Idle) []
     (\<lparr>once_done = True, dataCh = Some Closed, sendErr = res, goroutine = Exited\<rparr>, Receiving)"
  unfolding UseRowChan_def
  using run_silent [OF step_first_call [of "\<lparr>emits = [], result = res\<rparr>", simplified]
      run_silent [OF step_producer_returns [where p = "\<lparr>emits = [], result = res\<rparr>", simplified]
        run_silent [OF step_producer_closes run_stop]]]
  by simp

text \<open>
  Claim C5: once the channel is closed, every later call returns the error the producer
  recorded, or, when it recorded none, the end-of-data sentinel (a row with absent cells)
  and no error. Take any state the adapter can reach in which the channel is closed and the
  caller is not holding a row it received before the close. Then \<^verbatim>\<open>sendErr\<close> is what the
  producer returned, every call that returns from there on returns \<^const>\<open>after_close\<close> (that
  error, or the zero row), and a call does return it, leaving the closure unchanged.
\<close>

theorem pulls_after_close_repeat_the_recorded_outcome:
  assumes "run p (UseRowChan, Idle) rs (s, c)" and "dataCh s = Some Closed" and "\<not> holds_row c"
    and "run p (s, c) rs' cfg'"
  shows "sendErr s = result p \<and> rs' = replicate (length rs') (after_close p) \<and>
    run p (s, c) [after_close p] (s, Idle)"
proof -
  have c: "consistent p s"
    using run_consistent [OF assms(1)] consistent_UseRowChan [of p] by simp
  have "sendErr s = result p"
    using closed_consistent [OF c assms(2)] by simp
  moreover have "rs' = replicate (length rs') (after_close p)"
    using closed_run [OF assms(4)] c assms(2,3) by simp
  moreover have "run p (s, c) [after_close p] (s, Idle)"
    using c assms(2,3) by (rule closed_pull)
  ultimately show ?thesis
    by simp
qed

theorem pulls_after_close_repeat_the_recorded_outcome_witness:
  "run (silent_producer (Some query_failed)) (UseRowChan, Idle) []
     (drained (Some query_failed), Receiving) \<and>
   dataCh (drained (Some query_failed)) = Some Closed \<and>
   \<not> holds_row (Receiving :: (int, unit) consumer) \<and>
   run (silent_producer (Some query_failed)) (drained (Some query_failed), Receiving)
     [Inl query_failed, Inl query_failed] (drained (Some query_failed), Idle) \<and>
   sendErr (drained (Some query_failed)) = result (silent_producer (Some query_failed)) \<and>
   [Inl query_failed, Inl query_failed] =
     replicate (length [Inl query_failed, Inl query_failed :: error + (int, unit) Row])
       (after_close (silent_producer (Some query_failed))) \<and>
   run (silent_producer (Some query_failed)) (drained (Some query_failed), Receiving)
     [after_close (silent_producer (Some query_failed))] (drained (Some query_failed), Idle) \<and>
   run (silent_producer None) (UseRowChan, Idle) [] (drained None, Receiving) \<and>
   dataCh (drained None) = Some Closed \<and>
   run (silent_producer None) (drained None, Receiving) [Inr Row_zero, Inr Row_zero]
     (drained None, Idle) \<and>
   sendErr (drained None) = result (silent_producer None) \<and>
   [Inr Row_zero, Inr Row_zero] =
     replicate (length [Inr Row_zero, Inr Row_zero :: error + (int, unit) Row])
       (after_close (silent_producer None)) \<and>
   run (silent_producer None) (drained None, Receiving) [after_close (silent_producer None)]
     (drained None, Idle)"
proof -
  have start: "run (silent_producer res) (UseRowChan, Idle) [] (drained res, Receiving)" for res
    unfolding silent_producer_def drained_def by (rule empty_producer_run)
  have closed: "dataCh (drained res) = Some Closed" for res
    by (simp add: drained_def)
  have waiting: "\<not> holds_row (Receiving :: (int, unit) consumer)"
    by simp
  have failing: "run (silent_producer (Some query_failed)) (drained (Some query_failed), Receiving)
      [Inl query_failed, Inl query_failed] (drained (Some query_failed), Idle)"
    unfolding drained_def
    by (rule run_silent [OF step_receive_closed
          run_return [OF step_return_error
            run_silent [OF step_later_call
              run_silent [OF step_receive_closed run_return [OF step_return_error run_stop]]]]])
  have ending: "run (silent_producer None) (drained None, Receiving) [Inr Row_zero, Inr Row_zero]
      (drained None, Idle)"
    unfolding drained_def
    by (rule run_silent [OF step_receive_closed
          run_return [OF step_return_end
            run_silent [OF step_later_call
              run_silent [OF step_receive_closed run_return [OF step_return_end run_stop]]]]])
  note with_error = pulls_after_close_repeat_the_recorded_outcome [OF start closed waiting failing]
  note without = pulls_after_close_repeat_the_recorded_outcome [OF start closed waiting ending]
  show ?thesis
    by (intro conjI start closed waiting failing ending
        conjunct1 [OF with_error] conjunct1 [OF conjunct2 [OF with_error]]
        conjunct2 [OF conjunct2 [OF with_error]]
        conjunct1 [OF without] conjunct1 [OF conjunct2 [OF without]]
        conjunct2 [OF conjunct2 [OF without]])
qed

end
